theory Spec2Isabelle
  imports Main "HOL-Library.Char_ord" "HOL-Library.List_Lexorder" "HOL-Library.Multiset"
begin

section \<open>LiteX FHDL to Verilog conversion (litex/gen/fhdl/verilog.py)\<close>

text \<open>
  A shallow embedding of the Verilog back end of LiteX. The file verilog.py works on
  the FHDL structures of the migen library (signals, expressions, statements,
  fragments) and on three collaborators that live in other modules: the expression
  printer \<^verbatim>\<open>_generate_expression\<close>, the signal printer \<^verbatim>\<open>_generate_signal\<close>
  and the namespace (\<^verbatim>\<open>ns.get_name\<close>). The structures are modelled as datatypes and
  records with the fields verilog.py reads; the collaborators and the migen helpers
  (\<^verbatim>\<open>list_targets\<close>, \<^verbatim>\<open>is_variable\<close>, \<^verbatim>\<open>group_by_targets\<close>, \<^verbatim>\<open>value_bits_sign\<close>)
  enter as parameters. Python strings are \<^typ>\<open>string\<close>, Python integers are
  \<^typ>\<open>int\<close>, an exception is the \<open>Inl\<close> branch of a sum.
\<close>

subsection \<open>Data model\<close>

record cst =
  cvalue :: int
  cnbits :: nat
  csigned :: bool

text \<open>
  An attribute of a signal or special is a string (to be translated by \<^verbatim>\<open>attr_translate\<close>)
  or a pair of a name and a value. An attribute set is listed in the order of
  \<^verbatim>\<open>sorted(attr, key=...)\<close>, in which \<^verbatim>\<open>_generate_attribute\<close> goes through it.
\<close>

datatype attr_value = IntValue int | StrValue string

datatype attr_item = Translated string | Platform string attr_value

record signal =
  duid :: nat
  nbits :: nat
  signed :: bool
  reset :: cst
  reset_less :: bool
  variable :: bool
  name_override :: "string option"
  attr :: "attr_item list"

datatype expr =
    Constant cst
  | Signal signal
  | Operator string "expr list"
  | Slice expr int int
  | Cat "expr list"
  | Replicate expr nat
  | ResetSignal string

datatype case_key = KConstant cst | KDefault

text \<open>
  An argument of a \<^verbatim>\<open>Display\<close> statement: a value, or any other Python object, given by
  its \<^verbatim>\<open>str\<close>.
\<close>

datatype display_arg = ArgValue expr | ArgOther string

text \<open>
  Statements. \<open>Block\<close> is a nested Python list of statements (the
  \<^verbatim>\<open>collections.abc.Iterable\<close> branch of the node printer), \<open>Unknown\<close> is a node of
  any other type, carrying \<^verbatim>\<open>str(type(node))\<close>. The dictionary of a \<open>Case\<close> is an
  association list in insertion order.
\<close>

datatype stmt =
    Assign expr expr
  | Block "stmt list"
  | If expr "stmt list" "stmt list"
  | Case expr "(case_key \<times> stmt list) list"
  | Display string "display_arg list"
  | Finish
  | Unknown string

datatype error =
    TypeError string
  | NotImplementedError string
  | KeyError string
  | ValueError string
  | ZeroDivisionError
  | AssertionError
  | Exception string

text \<open>
  The collaborators of the emitters: \<open>get_name\<close> is \<^verbatim>\<open>ns.get_name\<close>, \<open>gen_expr e\<close> is
  \<^verbatim>\<open>_generate_expression(ns, e)[0]\<close>, \<open>gen_signal\<close> is \<^verbatim>\<open>_generate_signal(ns, sig)\<close>,
  \<open>list_targets\<close> and \<open>is_variable\<close> are the migen functions of these names
  (\<open>list_targets\<close> of one statement \<open>s\<close> is \<open>list_targets [s]\<close>), \<open>str_value\<close> is
  Python's \<^verbatim>\<open>str\<close> of a value object.
\<close>

record services =
  get_name :: "signal \<Rightarrow> string"
  gen_expr :: "expr \<Rightarrow> string"
  gen_signal :: "signal \<Rightarrow> string"
  list_targets :: "stmt list \<Rightarrow> signal list"
  is_variable :: "expr \<Rightarrow> bool"
  str_value :: "expr \<Rightarrow> string"

subsection \<open>Python's \<^verbatim>\<open>str\<close> of an integer\<close>

function str_nat :: "nat \<Rightarrow> string" where
  "str_nat n = (if n < 10 then [''0123456789'' ! n] else str_nat (n div 10) @ [''0123456789'' ! (n mod 10)])"
  by pat_completeness auto
termination
  by (relation "measure id") auto

declare str_nat.simps [simp del]

definition str_int :: "int \<Rightarrow> string" where
  "str_int i = (if i < 0 then ''-'' @ str_nat (nat (- i)) else str_nat (nat i))"

subsection \<open>Nodes\<close>

datatype AssignType = BLOCKING | NON_BLOCKING | SIGNAL

definition tab :: string where
  "tab = ''    ''"

definition indent :: "nat \<Rightarrow> string" where
  "indent level = concat (replicate level tab)"

text \<open>String accumulation \<^verbatim>\<open>r += ...\<close> where a piece may raise: the first error wins.\<close>

fun collect :: "(error + string) list \<Rightarrow> error + string" where
  "collect [] = Inr []"
| "collect (Inl e # ps) = Inl e"
| "collect (Inr s # ps) = (case collect ps of Inl e \<Rightarrow> Inl e | Inr r \<Rightarrow> Inr (s @ r))"

definition filtered_out :: "services \<Rightarrow> signal option \<Rightarrow> stmt list \<Rightarrow> bool" where
  "filtered_out sv target_filter node =
     (case target_filter of None \<Rightarrow> False | Some t \<Rightarrow> t \<notin> set (list_targets sv node))"

text \<open>The \<open>Iterable\<close> branch of \<^verbatim>\<open>_generate_node\<close>, with the printer of one node as \<open>g\<close>.\<close>

definition iterable ::
  "services \<Rightarrow> signal option \<Rightarrow> (stmt \<Rightarrow> error + string) \<Rightarrow> stmt list \<Rightarrow> error + string" where
  "iterable sv target_filter g node =
     (if filtered_out sv target_filter node then Inr [] else collect (map g node))"

lemma iterable_cong [fundef_cong]:
  "node = node' \<Longrightarrow> (\<And>n. n \<in> set node' \<Longrightarrow> g n = g' n) \<Longrightarrow>
   iterable sv tf g node = iterable sv tf g' node'"
  by (simp add: iterable_def cong: map_cong)

fun assignment :: "services \<Rightarrow> AssignType \<Rightarrow> expr \<Rightarrow> string" where
  "assignment sv BLOCKING l = '' = ''"
| "assignment sv NON_BLOCKING l = '' <= ''"
| "assignment sv SIGNAL l = (if is_variable sv l then '' = '' else '' <= '')"

fun is_KConstant :: "case_key \<times> 'a \<Rightarrow> bool" where
  "is_KConstant (KConstant c, v) = True"
| "is_KConstant (KDefault, v) = False"

fun key_value :: "case_key \<times> 'a \<Rightarrow> int" where
  "key_value (KConstant c, v) = cvalue c"
| "key_value (KDefault, v) = 0"

fun key_expr :: "case_key \<Rightarrow> expr" where
  "key_expr (KConstant c) = Constant c"
| "key_expr KDefault = Constant \<lparr>cvalue = 0, cnbits = 0, csigned = False\<rparr>"

text \<open>\<^verbatim>\<open>css\<close>: the constant-keyed items of the dictionary, sorted (stably) by value.\<close>

definition css :: "(case_key \<times> 'a) list \<Rightarrow> (case_key \<times> 'a) list" where
  "css cases = sort_key key_value (filter is_KConstant cases)"

fun display_arg_text :: "services \<Rightarrow> display_arg \<Rightarrow> string" where
  "display_arg_text sv (ArgValue (Signal x)) = get_name sv x"
| "display_arg_text sv (ArgValue e) = str_value sv e"
| "display_arg_text sv (ArgOther t) = t"

definition display_text :: "services \<Rightarrow> string \<Rightarrow> display_arg list \<Rightarrow> string" where
  "display_text sv s args =
     foldl (\<lambda>s arg. s @ '', '' @ display_arg_text sv arg) ([CHR 0x22] @ s @ [CHR 0x22]) args"

lemma css_subset: "set (css cases) \<subseteq> set cases"
  by (auto simp: css_def)

lemma size_member:
  fixes n :: stmt
  shows "n \<in> set ns \<Longrightarrow> size n \<le> size_list size ns"
  by (simp add: size_list_estimation')

lemma size_case_body:
  "(k, body) \<in> set cases \<Longrightarrow>
   size_list size body < Suc (size_list (size_prod (\<lambda>_. 0) (size_list size)) cases)"
  by (induction cases) auto

lemma size_case_stmt:
  fixes n :: stmt
  assumes "(k, body) \<in> set cases" and "n \<in> set body"
  shows "size n < Suc (size_list (size_prod (\<lambda>_. 0) (size_list size)) cases)"
proof -
  have "size n \<le> size_list size body"
    using assms(2) by (simp add: size_list_estimation')
  with size_case_body [OF assms(1)] show ?thesis
    by simp
qed

function generate_node ::
  "services \<Rightarrow> AssignType \<Rightarrow> nat \<Rightarrow> signal option \<Rightarrow> stmt \<Rightarrow> error + string" where
  "generate_node sv at level tf (Block node) =
     iterable sv tf (generate_node sv at level tf) node"
| "generate_node sv at level tf (Assign l r) =
     (if filtered_out sv tf [Assign l r] then Inr []
      else Inr (indent level @ gen_expr sv l @ assignment sv at l @ gen_expr sv r @ '';\<newline>''))"
| "generate_node sv at level tf (If cond t f) =
     (if filtered_out sv tf [If cond t f] then Inr []
      else collect
        ([Inr (indent level @ ''if ('' @ gen_expr sv cond @ '') begin\<newline>''),
          iterable sv tf (generate_node sv at (level + 1) tf) t] @
         (if f \<noteq> []
          then [Inr (indent level @ ''end else begin\<newline>''),
                iterable sv tf (generate_node sv at (level + 1) tf) f]
          else []) @
         [Inr (indent level @ ''end\<newline>'')]))"
| "generate_node sv at level tf (Case test cases) =
     (if filtered_out sv tf [Case test cases] then Inr []
      else if cases \<noteq> [] then collect
        ([Inr (indent level @ ''case ('' @ gen_expr sv test @ '')\<newline>'')] @
         concat (map (\<lambda>choice.
            [Inr (indent (level + 1) @ gen_expr sv (key_expr (fst choice)) @ '': begin\<newline>''),
             iterable sv tf (generate_node sv at (level + 2) tf) (snd choice),
             Inr (indent (level + 1) @ ''end\<newline>'')]) (css cases)) @
         (case map_of cases KDefault of
            None \<Rightarrow> []
          | Some statements \<Rightarrow>
            [Inr (indent (level + 1) @ ''default: begin\<newline>''),
             iterable sv tf (generate_node sv at (level + 2) tf) statements,
             Inr (indent (level + 1) @ ''end\<newline>'')]) @
         [Inr (indent level @ ''endcase\<newline>'')])
      else Inr [])"
| "generate_node sv at level tf (Display s args) =
     (if filtered_out sv tf [Display s args] then Inr []
      else Inr (indent level @ ''$display('' @ display_text sv s args @ '');\<newline>''))"
| "generate_node sv at level tf Finish =
     (if filtered_out sv tf [Finish] then Inr []
      else Inr (indent level @ ''$finish;\<newline>''))"
| "generate_node sv at level tf (Unknown ty) =
     (if filtered_out sv tf [Unknown ty] then Inr []
      else Inl (TypeError (''Node of unrecognized type: '' @ ty)))"
  by pat_completeness auto
termination
proof (relation "measure (\<lambda>(sv, at, level, tf, node). size node)", goal_cases)
  case (5 sv at level tf test cases x xa)
  then have "(fst x, snd x) \<in> set cases"
    using css_subset [of cases] by auto
  from size_case_stmt [OF this] 5 show ?case
    by simp
next
  case (6 sv at level tf test cases x2 xa)
  then have "(KDefault, x2) \<in> set cases"
    by (simp add: map_of_SomeD)
  from size_case_stmt [OF this] 6 show ?case
    by simp
qed (auto simp: less_Suc_eq_le dest: size_member intro: trans_le_add1 trans_le_add2)


text \<open>\<^verbatim>\<open>_generate_node\<close> applied to a Python list of statements.\<close>

definition generate_nodes ::
  "services \<Rightarrow> AssignType \<Rightarrow> nat \<Rightarrow> signal option \<Rightarrow> stmt list \<Rightarrow> error + string" where
  "generate_nodes sv at level tf node = iterable sv tf (generate_node sv at level tf) node"

subsection \<open>Combinatorial logic\<close>

fun is_Slice :: "expr \<Rightarrow> bool" where
  "is_Slice (Slice v a b) = True"
| "is_Slice e = False"

fun is_Assign :: "stmt \<Rightarrow> bool" where
  "is_Assign (Assign l r) = True"
| "is_Assign s = False"

fun assign_l :: "stmt \<Rightarrow> expr option" where
  "assign_l (Assign l r) = Some l"
| "assign_l s = None"

definition use_wire :: "stmt list \<Rightarrow> bool" where
  "use_wire stmts =
     (length stmts = 1 \<and> is_Assign (stmts ! 0) \<and>
      (case assign_l (stmts ! 0) of Some l \<Rightarrow> \<not> is_Slice l | None \<Rightarrow> False))"

text \<open>
  A group of \<^verbatim>\<open>group_by_targets\<close> is a pair of the target set (a list here, in the
  set's iteration order) and the statements of the group.
\<close>

type_synonym group = "signal list \<times> stmt list"

definition list_comb_wires :: "(stmt list \<Rightarrow> group list) \<Rightarrow> stmt list \<Rightarrow> signal list" where
  "list_comb_wires group_by_targets comb =
     foldl (\<lambda>r g. if use_wire (snd g) then List.union r (fst g) else r) [] (group_by_targets comb)"

definition reset_line :: "services \<Rightarrow> signal \<Rightarrow> string" where
  "reset_line sv t = tab @ get_name sv t @ '' <= '' @ gen_expr sv (Constant (reset t)) @ '';\<newline>''"

text \<open>One turn of the loop over the groups in \<^verbatim>\<open>_generate_combinatorial_logic_synth\<close>.\<close>

definition comb_group_synth :: "services \<Rightarrow> group \<Rightarrow> error + string" where
  "comb_group_synth sv g =
     (if use_wire (snd g)
      then collect [Inr ''assign '', generate_node sv BLOCKING 0 None (snd g ! 0)]
      else collect
        ([Inr ''always @(*) begin\<newline>''] @
         map (\<lambda>t. Inr (reset_line sv t)) (sort_key (get_name sv) (fst g)) @
         [generate_nodes sv NON_BLOCKING 1 None (snd g),
          Inr ''end\<newline>'']))"

definition generate_combinatorial_logic_synth ::
  "services \<Rightarrow> (stmt list \<Rightarrow> group list) \<Rightarrow> stmt list \<Rightarrow> error + string" where
  "generate_combinatorial_logic_synth sv group_by_targets comb =
     collect
       ((if comb \<noteq> [] then map (comb_group_synth sv) (group_by_targets comb) else []) @
        [Inr ''\<newline>''])"

subsection \<open>Synchronous logic\<close>

text \<open>A clock domain: its name, its clock and its reset, which is \<^verbatim>\<open>None\<close> in a domain without reset.\<close>

record clock_domain =
  cd_name :: string
  clk :: signal
  rst :: "signal option"

text \<open>\<^verbatim>\<open>f.clock_domains[k]\<close>: the first descriptor of that name, or a \<open>KeyError\<close>.\<close>

definition get_clock_domain :: "clock_domain list \<Rightarrow> string \<Rightarrow> error + clock_domain" where
  "get_clock_domain cds k =
     (case find (\<lambda>cd. cd_name cd = k) cds of None \<Rightarrow> Inl (KeyError k) | Some cd \<Rightarrow> Inr cd)"

definition sync_block ::
  "services \<Rightarrow> clock_domain list \<Rightarrow> string \<times> stmt list \<Rightarrow> error + string" where
  "sync_block sv cds kv =
     (case get_clock_domain cds (fst kv) of
        Inl e \<Rightarrow> Inl e
      | Inr cd \<Rightarrow> collect
          [Inr (''always @(posedge '' @ get_name sv (clk cd) @ '') begin\<newline>''),
           generate_nodes sv SIGNAL 1 None (snd kv),
           Inr ''end\<newline>\<newline>''])"

definition generate_synchronous_logic ::
  "services \<Rightarrow> clock_domain list \<Rightarrow> (string \<times> stmt list) list \<Rightarrow> error + string" where
  "generate_synchronous_logic sv cds sync =
     collect (map (sync_block sv cds) (sort_key fst sync))"

text \<open>
  The per-target variant (\<^verbatim>\<open>regular_comb=False\<close>). \<^verbatim>\<open>target_stmt_map\<close> is a dictionary in
  insertion order; \<open>flat\<close> is \<^verbatim>\<open>flat_iteration(f.comb)\<close>.
\<close>

fun map_append :: "signal \<Rightarrow> stmt \<Rightarrow> (signal \<times> stmt list) list \<Rightarrow> (signal \<times> stmt list) list" where
  "map_append t s [] = [(t, [s])]"
| "map_append t s (kv # m) =
     (if fst kv = t then (fst kv, snd kv @ [s]) # m else kv # map_append t s m)"

definition target_stmt_map :: "services \<Rightarrow> stmt list \<Rightarrow> (signal \<times> stmt list) list" where
  "target_stmt_map sv flat =
     foldl (\<lambda>m statement. foldl (\<lambda>m t. map_append t statement m) m (list_targets sv [statement]))
       [] flat"

definition comb_target_sim :: "services \<Rightarrow> signal \<times> stmt list \<Rightarrow> error + string" where
  "comb_target_sim sv ts =
     (if use_wire (snd ts)
      then collect [Inr ''assign '', generate_node sv BLOCKING 0 None (snd ts ! 0)]
      else collect
        [Inr ''always @(*) begin\<newline>'',
         Inr (reset_line sv (fst ts)),
         generate_nodes sv NON_BLOCKING 1 (Some (fst ts)) (snd ts),
         Inr ''end\<newline>''])"

definition generate_combinatorial_logic_sim ::
  "services \<Rightarrow> (stmt list \<Rightarrow> stmt list) \<Rightarrow> stmt list \<Rightarrow> error + string" where
  "generate_combinatorial_logic_sim sv flat_iteration comb =
     collect
       ((if comb \<noteq> [] then map (comb_target_sim sv) (target_stmt_map sv (flat_iteration comb))
         else []) @
        [Inr ''\<newline>''])"

subsection \<open>Attributes\<close>

definition const_expr :: "attr_value \<Rightarrow> string" where
  "const_expr attr_value =
     (case attr_value of
        IntValue i \<Rightarrow> str_int i
      | StrValue s \<Rightarrow> [CHR 0x22] @ s @ [CHR 0x22])"

type_synonym attr_translate = "string \<Rightarrow> (string \<times> attr_value) option"

fun attribute_pair :: "attr_translate \<Rightarrow> attr_item \<Rightarrow> (string \<times> attr_value) option" where
  "attribute_pair attr_translate (Platform attr_name attr_value) = Some (attr_name, attr_value)"
| "attribute_pair attr_translate (Translated a) = attr_translate a"

text \<open>One turn of the loop of \<^verbatim>\<open>_generate_attribute\<close>, on the pair \<open>(r, first)\<close>.\<close>

definition attribute_step :: "attr_translate \<Rightarrow> string \<times> bool \<Rightarrow> attr_item \<Rightarrow> string \<times> bool" where
  "attribute_step attr_translate rf a =
     (case attribute_pair attr_translate a of
        None \<Rightarrow> rf
      | Some nv \<Rightarrow>
          (fst rf @ (if \<not> snd rf then '', '' else []) @ fst nv @ '' = '' @ const_expr (snd nv),
           False))"

definition generate_attribute :: "attr_translate \<Rightarrow> attr_item list \<Rightarrow> string" where
  "generate_attribute attr_translate attr_set =
     (let r = fst (foldl (attribute_step attr_translate) ([], True) attr_set)
      in if r \<noteq> [] then [CHR ''('', CHR ''*'', CHR '' ''] @ r @ [CHR '' '', CHR ''*'', CHR '')'', CHR 10] else r)"

subsection \<open>Module and signals\<close>

text \<open>
  The signal sets of \<^verbatim>\<open>_generate_module\<close> and \<^verbatim>\<open>_generate_signals\<close> come from migen
  (\<^verbatim>\<open>list_signals\<close>, \<^verbatim>\<open>list_special_ios\<close>, \<^verbatim>\<open>list_targets\<close>); a set is a list
  without duplicates. \<open>sigs\<close> is \<^verbatim>\<open>list_signals(f) | list_special_ios(f, True, True, True)\<close>,
  \<open>special_outs\<close> is \<^verbatim>\<open>list_special_ios(f, False, True, True)\<close>, \<open>inouts\<close> is
  \<^verbatim>\<open>list_special_ios(f, False, False, True)\<close> and \<open>targets\<close> is \<^verbatim>\<open>list_targets(f)\<close>.
  \<^verbatim>\<open>_generate_module\<close> also stores the type, name and direction it has chosen in each port
  signal; these fields are written and not read in this file, and are left out.
\<close>

record signal_sets =
  sigs :: "signal list"
  special_outs :: "signal list"
  inouts :: "signal list"
  targets :: "signal list"

definition port_text ::
  "services \<Rightarrow> attr_translate \<Rightarrow> signal list \<Rightarrow> signal list \<Rightarrow> signal list \<Rightarrow> signal \<Rightarrow> string" where
  "port_text sv attr_translate inouts_set targets_set wires sg =
     (let a = generate_attribute attr_translate (attr sg)
      in (if a \<noteq> [] then tab @ a else []) @
         (if sg \<in> set inouts_set then tab @ ''inout  wire '' @ gen_signal sv sg
          else if sg \<in> set targets_set then
            (if sg \<in> set wires then tab @ ''output wire '' @ gen_signal sv sg
             else tab @ ''output reg  '' @ gen_signal sv sg)
          else tab @ ''input  wire '' @ gen_signal sv sg))"

definition generate_module ::
  "services \<Rightarrow> attr_translate \<Rightarrow> (stmt list \<Rightarrow> group list) \<Rightarrow> signal_sets \<Rightarrow> stmt list \<Rightarrow>
   signal list \<Rightarrow> string \<Rightarrow> string" where
  "generate_module sv attr_translate group_by_targets sets comb ios name =
     (let targets_set = List.union (targets sets) (special_outs sets);
          wires = List.union (list_comb_wires group_by_targets comb) (special_outs sets)
      in ''module '' @ name @ '' (\<newline>'' @
         fst (foldl (\<lambda>rf sg.
                (fst rf @ (if \<not> snd rf then '',\<newline>'' else []) @
                 port_text sv attr_translate (inouts sets) targets_set wires sg, False))
              ([], True) (sort_key (get_name sv) ios)) @
         ''\<newline>);\<newline>\<newline>'')"

text \<open>One turn of the loop of \<^verbatim>\<open>_generate_signals\<close>.\<close>

definition signal_declaration ::
  "services \<Rightarrow> attr_translate \<Rightarrow> signal list \<Rightarrow> bool \<Rightarrow> signal \<Rightarrow> string" where
  "signal_declaration sv attr_translate wires regs_init sg =
     generate_attribute attr_translate (attr sg) @
     (if sg \<in> set wires then ''wire '' @ gen_signal sv sg @ '';\<newline>''
      else ''reg  '' @ gen_signal sv sg @
           (if regs_init then '' = '' @ gen_expr sv (Constant (reset sg)) else []) @
           '';\<newline>'')"

definition generate_signals ::
  "services \<Rightarrow> attr_translate \<Rightarrow> (stmt list \<Rightarrow> group list) \<Rightarrow> signal_sets \<Rightarrow> stmt list \<Rightarrow>
   signal list \<Rightarrow> bool \<Rightarrow> string" where
  "generate_signals sv attr_translate group_by_targets sets comb ios regs_init =
     (let wires = List.union (list_comb_wires group_by_targets comb) (special_outs sets)
      in concat (map (signal_declaration sv attr_translate wires regs_init)
           (sort_key (get_name sv) (filter (\<lambda>sg. sg \<notin> set ios) (sigs sets)))))"

subsection \<open>Specials\<close>

datatype special_kind = Memory | Instance | Other

datatype direction = SPECIAL_INPUT | SPECIAL_OUTPUT | SPECIAL_INOUT

text \<open>
  A special primitive: its \<^verbatim>\<open>duid\<close>, its class, its attribute set when it has one
  (\<^verbatim>\<open>hasattr(special, "attr")\<close>), \<^verbatim>\<open>str(special)\<close>, and the expressions it is connected
  to, each with its direction, in the order of \<^verbatim>\<open>special.iter_expressions()\<close>.
\<close>

record special =
  sp_duid :: nat
  sp_kind :: special_kind
  sp_attr :: "attr_item list option"
  sp_str :: string
  sp_expressions :: "(direction \<times> expr) list"

text \<open>
  The three emitters, outside this file: \<^verbatim>\<open>_memory_generate_verilog\<close>,
  \<^verbatim>\<open>_instance_generate_verilog\<close> and \<^verbatim>\<open>call_special_classmethod(overrides, special,
  "emit_verilog", ...)\<close>, which is \<open>None\<close> when no \<^verbatim>\<open>emit_verilog\<close> is found.
\<close>

record special_emitters =
  memory_generate_verilog :: "special \<Rightarrow> string option"
  instance_generate_verilog :: "special \<Rightarrow> string option"
  emit_verilog :: "special \<Rightarrow> string option"

definition special_pr :: "special_emitters \<Rightarrow> special \<Rightarrow> string option" where
  "special_pr em sp =
     (case sp_kind sp of
        Memory \<Rightarrow> memory_generate_verilog em sp
      | Instance \<Rightarrow> instance_generate_verilog em sp
      | Other \<Rightarrow> emit_verilog em sp)"

definition special_block :: "attr_translate \<Rightarrow> special_emitters \<Rightarrow> special \<Rightarrow> error + string" where
  "special_block attr_translate em sp =
     (case special_pr em sp of
        None \<Rightarrow> Inl (NotImplementedError
                  (''Special '' @ sp_str sp @ '' failed to implement emit_verilog''))
      | Some pr \<Rightarrow>
          Inr ((case sp_attr sp of None \<Rightarrow> [] | Some a \<Rightarrow> generate_attribute attr_translate a) @ pr))"

definition generate_specials ::
  "attr_translate \<Rightarrow> special_emitters \<Rightarrow> special list \<Rightarrow> error + string" where
  "generate_specials attr_translate em specials_set =
     collect (map (special_block attr_translate em) (sort_key sp_duid specials_set))"

subsection \<open>Lowering of complex slices\<close>

text \<open>
  \<^verbatim>\<open>len(e)\<close> on a migen value is the width given by \<^verbatim>\<open>value_bits_sign\<close>; it enters as
  the parameter \<open>len\<close>. \<open>cat_operand\<close> is the \<^verbatim>\<open>for\<close> loop of \<^verbatim>\<open>_lower_slice_cat\<close>:
  \<open>Some\<close> at its \<^verbatim>\<open>break\<close>, \<open>None\<close> when it runs into its \<^verbatim>\<open>else\<close>.
\<close>

fun cat_operand :: "(expr \<Rightarrow> nat) \<Rightarrow> expr list \<Rightarrow> int \<Rightarrow> int \<Rightarrow> int \<Rightarrow> (expr \<times> int) option" where
  "cat_operand len [] cat_start start length' = None"
| "cat_operand len (e # l) cat_start start length' =
     (if cat_start \<le> start \<and> start < cat_start + int (len e) \<and>
         cat_start + int (len e) \<ge> start + length'
      then Some (e, start - cat_start)
      else cat_operand len l (cat_start + int (len e)) start length')"

lemma cat_operand_mem: "cat_operand len l cat_start start length' = Some es \<Longrightarrow> fst es \<in> set l"
  by (induction l arbitrary: cat_start) (auto split: if_splits)

lemma size_expr_member:
  fixes e :: expr
  shows "e \<in> set l \<Longrightarrow> size e \<le> size_list size l"
  by (simp add: size_list_estimation')

function lower_slice_cat :: "(expr \<Rightarrow> nat) \<Rightarrow> expr \<Rightarrow> int \<Rightarrow> int \<Rightarrow> expr \<times> int" where
  "lower_slice_cat len node start length' =
     (case node of
        Cat l \<Rightarrow>
          (case cat_operand len l 0 start length' of
             Some es \<Rightarrow> lower_slice_cat len (fst es) (snd es) length'
           | None \<Rightarrow> (node, start))
      | _ \<Rightarrow> (node, start))"
  by pat_completeness auto
termination
proof (relation "measure (\<lambda>(len, node, start, length'). size node)", goal_cases)
  case 1
  show ?case by simp
next
  case (2 len node start length' l es)
  from size_expr_member [OF cat_operand_mem [OF 2(2)]] 2(1) show ?case
    by simp
qed

declare lower_slice_cat.simps [simp del]

fun lower_slice_replicate ::
  "(expr \<Rightarrow> nat) \<Rightarrow> expr \<Rightarrow> int \<Rightarrow> int \<Rightarrow> error + (expr \<times> int)" where
  "lower_slice_replicate len (Replicate v n) start length' =
     (if len v = 0 then Inl ZeroDivisionError
      else if start div int (len v) = (start + length' - 1) div int (len v)
      then lower_slice_replicate len v (start mod int (len v)) length'
      else Inr (Replicate v n, start))"
| "lower_slice_replicate len node start length' = Inr (node, start)"

lemma lower_slice_cat_size: "size (fst (lower_slice_cat len node start length')) \<le> size node"
proof (induction len node start length' rule: lower_slice_cat.induct)
  case (1 len node start length')
  show ?case
  proof (cases node)
    case (Cat l)
    show ?thesis
    proof (cases "cat_operand len l 0 start length'")
      case None
      with Cat show ?thesis by (simp add: lower_slice_cat.simps)
    next
      case (Some es)
      from 1 [OF Cat Some] size_expr_member [OF cat_operand_mem [OF Some]] Cat Some
      show ?thesis
        by (simp add: lower_slice_cat.simps [of len "Cat l"])
    qed
  qed (simp_all add: lower_slice_cat.simps)
qed

lemma lower_slice_replicate_size:
  "lower_slice_replicate len node start length' = Inr ns \<Longrightarrow>
   ns = (node, start) \<or> size (fst ns) < size node"
proof (induction len node start length' rule: lower_slice_replicate.induct)
  case (1 len v n start length')
  then show ?case
    by (fastforce split: if_splits)
qed simp_all

text \<open>
  The \<^verbatim>\<open>while True\<close> loop of \<^verbatim>\<open>visit_Slice\<close>. The test \<^verbatim>\<open>node is former_node\<close> is an
  equality of terms here: a node that \<^verbatim>\<open>_lower_slice_replicate\<close> narrows is replaced by a
  proper part of itself.
\<close>

function lower_slices_loop ::
  "(expr \<Rightarrow> nat) \<Rightarrow> expr \<Rightarrow> int \<Rightarrow> int \<Rightarrow> error + (expr \<times> int)" where
  "lower_slices_loop len node start length' =
     (case lower_slice_cat len node start length' of
        (former_node, start1) \<Rightarrow>
          (case lower_slice_replicate len former_node start1 length' of
             Inl e \<Rightarrow> Inl e
           | Inr ns \<Rightarrow>
               if fst ns = former_node then Inr ns
               else lower_slices_loop len (fst ns) (snd ns) length'))"
  by pat_completeness auto
termination
proof (relation "measure (\<lambda>(len, node, start, length'). size node)", goal_cases)
  case 1
  show ?case by simp
next
  case (2 len node start length' former_node start1 ns)
  from 2(1) lower_slice_cat_size [of len node start length']
  have "size former_node \<le> size node"
    by (metis fst_conv)
  moreover from lower_slice_replicate_size [OF 2(2)] 2(3)
  have "size (fst ns) < size former_node"
    by auto
  ultimately show ?case
    by simp
qed

declare lower_slices_loop.simps [simp del]


lemma lower_slices_loop_size:
  "lower_slices_loop len node start length' = Inr ns \<Longrightarrow> size (fst ns) \<le> size node"
proof (induction len node start length' rule: lower_slices_loop.induct)
  case (1 len node start length')
  obtain former_node start1 where c: "lower_slice_cat len node start length' = (former_node, start1)"
    by (cases "lower_slice_cat len node start length'")
  with lower_slice_cat_size [of len node start length']
  have fs: "size former_node \<le> size node"
    by simp
  from 1(2) c obtain ns1 where
    r: "lower_slice_replicate len former_node start1 length' = Inr ns1"
    by (cases "lower_slice_replicate len former_node start1 length'")
       (simp_all add: lower_slices_loop.simps [of len node])
  show ?case
  proof (cases "fst ns1 = former_node")
    case True
    with 1(2) c r fs show ?thesis
      by (simp add: lower_slices_loop.simps [of len node])
  next
    case False
    with 1(2) c r have "lower_slices_loop len (fst ns1) (snd ns1) length' = Inr ns"
      by (simp add: lower_slices_loop.simps [of len node])
    from 1(1) [OF c [symmetric] r False this] lower_slice_replicate_size [OF r] False fs
    show ?thesis
      by auto
  qed
qed

text \<open>The outer \<^verbatim>\<open>while isinstance(node, _Slice)\<close> loop of \<^verbatim>\<open>visit_Slice\<close>.\<close>

function strip_slices ::
  "(expr \<Rightarrow> nat) \<Rightarrow> expr \<Rightarrow> int \<Rightarrow> int \<Rightarrow> error + (expr \<times> int)" where
  "strip_slices len node start length' =
     (case node of
        Slice v a b \<Rightarrow>
          (case lower_slices_loop len v (start + a) length' of
             Inl e \<Rightarrow> Inl e
           | Inr ns \<Rightarrow> strip_slices len (fst ns) (snd ns) length')
      | _ \<Rightarrow> Inr (node, start))"
  by pat_completeness auto
termination
proof (relation "measure (\<lambda>(len, node, start, length'). size node)", goal_cases)
  case 1
  show ?case by simp
next
  case (2 len node start length' v a b ns)
  from lower_slices_loop_size [OF 2(2)] 2(1) show ?case
    by simp
qed

declare strip_slices.simps [simp del]

lemma strip_slices_size:
  "strip_slices len node start length' = Inr ns \<Longrightarrow> size (fst ns) \<le> size node"
proof (induction len node start length' rule: strip_slices.induct)
  case (1 len node start length')
  show ?case
  proof (cases node)
    case (Slice v a b)
    with 1(2) obtain ns1 where l: "lower_slices_loop len v (start + a) length' = Inr ns1"
      and s: "strip_slices len (fst ns1) (snd ns1) length' = Inr ns"
      by (cases "lower_slices_loop len v (start + a) length'")
         (simp_all add: strip_slices.simps [of len "Slice v a b"])
    from 1(1) [OF Slice l s] lower_slices_loop_size [OF l] Slice show ?thesis
      by simp
  qed (use 1(2) in \<open>auto simp: strip_slices.simps\<close>)
qed

lemma strip_slices_Slice_size:
  "strip_slices len (Slice v a b) start length' = Inr ns \<Longrightarrow> size (fst ns) < size (Slice v a b)"
proof -
  assume a: "strip_slices len (Slice v a b) start length' = Inr ns"
  then obtain ns1 where l: "lower_slices_loop len v (start + a) length' = Inr ns1"
    and s: "strip_slices len (fst ns1) (snd ns1) length' = Inr ns"
    by (cases "lower_slices_loop len v (start + a) length'")
       (simp_all add: strip_slices.simps [of len "Slice v a b"])
  from strip_slices_size [OF s] lower_slices_loop_size [OF l] show ?thesis
    by simp
qed


text \<open>
  The state of a \<^verbatim>\<open>_Lowerer\<close>: \<^verbatim>\<open>target_context\<close>, the list \<^verbatim>\<open>comb\<close> of the statements
  it adds, and the state of migen's object counter: every value object that is built (a
  signal, a constant, an operator, a slice, a concatenation, a replication) takes the next
  \<^verbatim>\<open>duid\<close>; statements take none. \<open>built n\<close> records that \<open>n\<close> value objects were built.
\<close>

record lowerer =
  target_context :: bool
  lowerer_comb :: "stmt list"
  next_duid :: nat

definition built :: "nat \<Rightarrow> lowerer \<Rightarrow> lowerer" where
  "built n st = st\<lparr>next_duid := next_duid st + n\<rparr>"

text \<open>
  \<^verbatim>\<open>Signal(bits_sign)\<close> as the counter stands at \<open>d\<close>: the signal takes \<open>d\<close> and its reset
  value, the constant 0 of the signal's shape, takes the number after it.
\<close>

definition new_signal :: "nat \<Rightarrow> nat \<times> bool \<Rightarrow> signal" where
  "new_signal d bits_sign =
     \<lparr>duid = d, nbits = fst bits_sign, signed = snd bits_sign,
      reset = \<lparr>cvalue = 0, cnbits = fst bits_sign, csigned = snd bits_sign\<rparr>,
      reset_less = False, variable = False, name_override = None, attr = []\<rparr>"

fun is_Signal :: "expr \<Rightarrow> bool" where
  "is_Signal (Signal s) = True"
| "is_Signal e = False"

text \<open>
  \<open>visit\<close> is \<^verbatim>\<open>NodeTransformer.visit\<close> on an expression, with \<^verbatim>\<open>visit_Slice\<close> as
  \<^verbatim>\<open>_ComplexSliceLowerer\<close> overrides it; \<open>visit_Assign\<close> is \<^verbatim>\<open>_Lowerer.visit_Assign\<close> on
  the two sides of an assignment (this lowerer never fills \<^verbatim>\<open>extra_stmts\<close>). The two
  base classes are migen's: their traversal rebuilds a node from its visited parts and
  returns a leaf as it is, with the state threaded from left to right. A signal of
  width 0 is refused by the constructor of \<^verbatim>\<open>Signal\<close>.
\<close>

function visit :: "(expr \<Rightarrow> nat \<times> bool) \<Rightarrow> lowerer \<Rightarrow> expr \<Rightarrow> error + (expr \<times> lowerer)"
  and visit_list ::
    "(expr \<Rightarrow> nat \<times> bool) \<Rightarrow> lowerer \<Rightarrow> expr list \<Rightarrow> error + (expr list \<times> lowerer)"
  and visit_Assign ::
    "(expr \<Rightarrow> nat \<times> bool) \<Rightarrow> lowerer \<Rightarrow> expr \<Rightarrow> expr \<Rightarrow> error + ((expr \<times> expr) \<times> lowerer)"
where
  "visit value_bits_sign st (Constant c) = Inr (Constant c, st)"
| "visit value_bits_sign st (Signal s) = Inr (Signal s, st)"
| "visit value_bits_sign st (ResetSignal cd) = Inr (ResetSignal cd, st)"
| "visit value_bits_sign st (Operator op operands) =
     (case visit_list value_bits_sign st operands of
        Inl e \<Rightarrow> Inl e
      | Inr r \<Rightarrow> Inr (Operator op (fst r), built 1 (snd r)))"
| "visit value_bits_sign st (Cat l) =
     (case visit_list value_bits_sign st l of
        Inl e \<Rightarrow> Inl e
      | Inr r \<Rightarrow> Inr (Cat (fst r), built 1 (snd r)))"
| "visit value_bits_sign st (Replicate v n) =
     (case visit value_bits_sign st v of
        Inl e \<Rightarrow> Inl e
      | Inr r \<Rightarrow> Inr (Replicate (fst r) n, built 1 (snd r)))"
| "visit value_bits_sign st (Slice v a b) =
     (case strip_slices (\<lambda>e. fst (value_bits_sign e)) (Slice v a b) 0
             (int (fst (value_bits_sign (Slice v a b)))) of
        Inl e \<Rightarrow> Inl e
      | Inr ns \<Rightarrow>
          if snd ns = 0 \<and> fst (value_bits_sign (fst ns)) = fst (value_bits_sign (Slice v a b))
          then visit value_bits_sign st (fst ns)
          else if is_Signal (fst ns)
          then Inr (Slice (fst ns) (snd ns) (snd ns + int (fst (value_bits_sign (Slice v a b)))),
                    built 2 st)
          else if fst (value_bits_sign (fst ns)) = 0
          then Inl (ValueError ''Signal width must be a strictly positive integer'')
          else
            (case (if target_context st
                   then visit_Assign value_bits_sign (built 2 st)
                          (fst ns) (Signal (new_signal (next_duid st) (value_bits_sign (fst ns))))
                   else visit_Assign value_bits_sign (built 2 st)
                          (Signal (new_signal (next_duid st) (value_bits_sign (fst ns)))) (fst ns)) of
               Inl e \<Rightarrow> Inl e
             | Inr r \<Rightarrow>
                 Inr (Slice (Signal (new_signal (next_duid st) (value_bits_sign (fst ns))))
                        (snd ns) (snd ns + int (fst (value_bits_sign (Slice v a b)))),
                      built 2 ((snd r)\<lparr>lowerer_comb :=
                        lowerer_comb (snd r) @ [Assign (fst (fst r)) (snd (fst r))]\<rparr>))))"
| "visit_list value_bits_sign st [] = Inr ([], st)"
| "visit_list value_bits_sign st (e # es) =
     (case visit value_bits_sign st e of
        Inl err \<Rightarrow> Inl err
      | Inr r \<Rightarrow>
          (case visit_list value_bits_sign (snd r) es of
             Inl err \<Rightarrow> Inl err
           | Inr rs \<Rightarrow> Inr (fst r # fst rs, snd rs)))"
| "visit_Assign value_bits_sign st l r =
     (case visit value_bits_sign (st\<lparr>target_context := True\<rparr>) l of
        Inl e \<Rightarrow> Inl e
      | Inr lhs \<Rightarrow>
          (case visit value_bits_sign ((snd lhs)\<lparr>target_context := False\<rparr>) r of
             Inl e \<Rightarrow> Inl e
           | Inr rhs \<Rightarrow>
               Inr ((fst lhs, fst rhs), (snd rhs)\<lparr>target_context := target_context st\<rparr>)))"
  by pat_completeness auto
termination
proof (relation "measure (\<lambda>x. case x of
          Inl (vbs, st, e) \<Rightarrow> 3 * size e
        | Inr (Inl (vbs, st, es)) \<Rightarrow> 3 * size_list size es + 1
        | Inr (Inr (vbs, st, l, r)) \<Rightarrow> 3 * (size l + size r) + 1)", goal_cases)
  case 1
  show ?case by simp
next
  case (5 value_bits_sign st v a b ns)
  from strip_slices_Slice_size [OF 5(1)] show ?case
    by simp
next
  case (6 value_bits_sign st v a b ns)
  from strip_slices_Slice_size [OF 6(1)] show ?case
    by simp
next
  case (7 value_bits_sign st v a b ns)
  from strip_slices_Slice_size [OF 7(1)] show ?case
    by simp
qed simp_all

text \<open>
  The same traversal on statements: an assignment goes through \<^verbatim>\<open>visit_Assign\<close>, an
  \<^verbatim>\<open>If\<close> is rebuilt from its visited condition and branches, any other node is returned
  as it is (\<^verbatim>\<open>visit_unknown\<close>). \<^verbatim>\<open>visit_Case\<close> visits the branches first, in the order of
  \<^verbatim>\<open>sorted(node.cases.items(), key=...)\<close>, whose key is the parameter \<open>case_order\<close> (it
  reads the \<^verbatim>\<open>duid\<close> of a constant key, which a \<^typ>\<open>cst\<close> does not carry), then the
  test, and builds the new dictionary in the order of the visit.
\<close>

lemma size_list_sort_key [simp]: "size_list f (sort_key k xs) = size_list f xs"
proof -
  have "sum_list (map f (sort_key k xs)) = sum_mset (image_mset f (mset (sort_key k xs)))"
    by (simp only: sum_mset_sum_list [symmetric] mset_map)
  also have "\<dots> = sum_list (map f xs)"
    by (simp add: sum_mset_sum_list [symmetric])
  finally show ?thesis
    by (simp add: size_list_conv_sum_list)
qed

function visit_stmt ::
    "(expr \<Rightarrow> nat \<times> bool) \<Rightarrow> (case_key \<Rightarrow> int) \<Rightarrow> lowerer \<Rightarrow> stmt \<Rightarrow> error + (stmt \<times> lowerer)"
  and visit_stmts ::
    "(expr \<Rightarrow> nat \<times> bool) \<Rightarrow> (case_key \<Rightarrow> int) \<Rightarrow> lowerer \<Rightarrow> stmt list \<Rightarrow>
     error + (stmt list \<times> lowerer)"
  and visit_cases ::
    "(expr \<Rightarrow> nat \<times> bool) \<Rightarrow> (case_key \<Rightarrow> int) \<Rightarrow> lowerer \<Rightarrow> (case_key \<times> stmt list) list \<Rightarrow>
     error + ((case_key \<times> stmt list) list \<times> lowerer)"
where
  "visit_stmt value_bits_sign case_order st (Assign l r) =
     (case visit_Assign value_bits_sign st l r of
        Inl e \<Rightarrow> Inl e
      | Inr x \<Rightarrow> Inr (Assign (fst (fst x)) (snd (fst x)), snd x))"
| "visit_stmt value_bits_sign case_order st (Block node) =
     (case visit_stmts value_bits_sign case_order st node of
        Inl e \<Rightarrow> Inl e
      | Inr x \<Rightarrow> Inr (Block (fst x), snd x))"
| "visit_stmt value_bits_sign case_order st (If cond t f) =
     (case visit value_bits_sign st cond of
        Inl e \<Rightarrow> Inl e
      | Inr c \<Rightarrow>
          (case visit_stmts value_bits_sign case_order (snd c) t of
             Inl e \<Rightarrow> Inl e
           | Inr t' \<Rightarrow>
               (case visit_stmts value_bits_sign case_order (snd t') f of
                  Inl e \<Rightarrow> Inl e
                | Inr f' \<Rightarrow> Inr (If (fst c) (fst t') (fst f'), snd f'))))"
| "visit_stmt value_bits_sign case_order st (Case test cases) =
     (case visit_cases value_bits_sign case_order st
             (sort_key (\<lambda>kv. case_order (fst kv)) cases) of
        Inl e \<Rightarrow> Inl e
      | Inr cs \<Rightarrow>
          (case visit value_bits_sign (snd cs) test of
             Inl e \<Rightarrow> Inl e
           | Inr c \<Rightarrow> Inr (Case (fst c) (fst cs), snd c)))"
| "visit_stmt value_bits_sign case_order st (Display s args) = Inr (Display s args, st)"
| "visit_stmt value_bits_sign case_order st Finish = Inr (Finish, st)"
| "visit_stmt value_bits_sign case_order st (Unknown ty) = Inr (Unknown ty, st)"
| "visit_stmts value_bits_sign case_order st [] = Inr ([], st)"
| "visit_stmts value_bits_sign case_order st (s # ss) =
     (case visit_stmt value_bits_sign case_order st s of
        Inl e \<Rightarrow> Inl e
      | Inr x \<Rightarrow>
          (case visit_stmts value_bits_sign case_order (snd x) ss of
             Inl e \<Rightarrow> Inl e
           | Inr xs \<Rightarrow> Inr (fst x # fst xs, snd xs)))"
| "visit_cases value_bits_sign case_order st [] = Inr ([], st)"
| "visit_cases value_bits_sign case_order st (kv # cases) =
     (case visit_stmts value_bits_sign case_order st (snd kv) of
        Inl e \<Rightarrow> Inl e
      | Inr x \<Rightarrow>
          (case visit_cases value_bits_sign case_order (snd x) cases of
             Inl e \<Rightarrow> Inl e
           | Inr xs \<Rightarrow> Inr ((fst kv, fst x) # fst xs, snd xs)))"
  by pat_completeness auto
termination
  by (relation "measure (\<lambda>x. case x of
          Inl (vbs, co, st, s) \<Rightarrow> size s
        | Inr (Inl (vbs, co, st, ss)) \<Rightarrow> size_list size ss
        | Inr (Inr (vbs, co, st, cs)) \<Rightarrow> size_list (size_prod (\<lambda>_. 0) (size_list size)) cs)")
    (auto simp: less_Suc_eq_le)

subsection \<open>Fragments\<close>

record fragment =
  f_comb :: "stmt list"
  f_sync :: "(string \<times> stmt list) list"
  f_specials :: "special list"
  f_clock_domains :: "clock_domain list"

text \<open>
  \<^verbatim>\<open>visit_clock_domains\<close>: the statements of the domains are visited in the order of
  \<^verbatim>\<open>sorted(node.items(), key=itemgetter(0))\<close>, and the new dictionary is built in that
  order.
\<close>

fun visit_items ::
  "(expr \<Rightarrow> nat \<times> bool) \<Rightarrow> (case_key \<Rightarrow> int) \<Rightarrow> lowerer \<Rightarrow> (string \<times> stmt list) list \<Rightarrow>
   error + ((string \<times> stmt list) list \<times> lowerer)" where
  "visit_items value_bits_sign case_order st [] = Inr ([], st)"
| "visit_items value_bits_sign case_order st (kv # sync) =
     (case visit_stmts value_bits_sign case_order st (snd kv) of
        Inl e \<Rightarrow> Inl e
      | Inr x \<Rightarrow>
          (case visit_items value_bits_sign case_order (snd x) sync of
             Inl e \<Rightarrow> Inl e
           | Inr xs \<Rightarrow> Inr ((fst kv, fst x) # fst xs, snd xs)))"

definition visit_clock_domains ::
  "(expr \<Rightarrow> nat \<times> bool) \<Rightarrow> (case_key \<Rightarrow> int) \<Rightarrow> lowerer \<Rightarrow> (string \<times> stmt list) list \<Rightarrow>
   error + ((string \<times> stmt list) list \<times> lowerer)" where
  "visit_clock_domains value_bits_sign case_order st sync =
     visit_items value_bits_sign case_order st (sort_key fst sync)"

text \<open>
  The loop of \<^verbatim>\<open>_apply_lowerer\<close> over the expressions of one special: an expression of
  direction \<^verbatim>\<open>SPECIAL_INOUT\<close> is left as it is, any other is visited, an output in target
  context, and put back in its place.
\<close>

fun visit_expressions ::
  "(expr \<Rightarrow> nat \<times> bool) \<Rightarrow> lowerer \<Rightarrow> (direction \<times> expr) list \<Rightarrow>
   error + ((direction \<times> expr) list \<times> lowerer)" where
  "visit_expressions value_bits_sign st [] = Inr ([], st)"
| "visit_expressions value_bits_sign st (de # des) =
     (if fst de = SPECIAL_INOUT
      then (case visit_expressions value_bits_sign st des of
              Inl e \<Rightarrow> Inl e
            | Inr xs \<Rightarrow> Inr (de # fst xs, snd xs))
      else (case visit value_bits_sign (st\<lparr>target_context := (fst de \<noteq> SPECIAL_INPUT)\<rparr>) (snd de) of
              Inl e \<Rightarrow> Inl e
            | Inr x \<Rightarrow>
                (case visit_expressions value_bits_sign (snd x) des of
                   Inl e \<Rightarrow> Inl e
                 | Inr xs \<Rightarrow> Inr ((fst de, fst x) # fst xs, snd xs))))"

fun visit_specials ::
  "(expr \<Rightarrow> nat \<times> bool) \<Rightarrow> lowerer \<Rightarrow> special list \<Rightarrow> error + (special list \<times> lowerer)" where
  "visit_specials value_bits_sign st [] = Inr ([], st)"
| "visit_specials value_bits_sign st (sp # sps) =
     (case visit_expressions value_bits_sign st (sp_expressions sp) of
        Inl e \<Rightarrow> Inl e
      | Inr x \<Rightarrow>
          (case visit_specials value_bits_sign (snd x) sps of
             Inl e \<Rightarrow> Inl e
           | Inr xs \<Rightarrow> Inr (sp\<lparr>sp_expressions := fst x\<rparr> # fst xs, snd xs)))"

text \<open>
  \<^verbatim>\<open>lower_complex_slices(f)\<close> is \<^verbatim>\<open>_apply_lowerer(_ComplexSliceLowerer(), f)\<close>: the
  statements of the fragment are visited, then the expressions of the specials in the
  order of \<^verbatim>\<open>sorted(f.specials, key=lambda s: s.duid)\<close>, and the statements the lowerer
  collected on the way are added to \<^verbatim>\<open>f.comb\<close> in the order of their collection.
  \<^verbatim>\<open>f.specials\<close> is a set: it is listed in the order of that loop afterwards. \<open>d\<close> is the
  state of migen's object counter when the pass starts.
\<close>

definition lower_complex_slices ::
  "(expr \<Rightarrow> nat \<times> bool) \<Rightarrow> (case_key \<Rightarrow> int) \<Rightarrow> nat \<Rightarrow> fragment \<Rightarrow> error + fragment" where
  "lower_complex_slices value_bits_sign case_order d f =
     (case visit_stmts value_bits_sign case_order
             \<lparr>target_context = False, lowerer_comb = [], next_duid = d\<rparr> (f_comb f) of
        Inl e \<Rightarrow> Inl e
      | Inr c \<Rightarrow>
          (case visit_clock_domains value_bits_sign case_order (snd c) (f_sync f) of
             Inl e \<Rightarrow> Inl e
           | Inr s \<Rightarrow>
               (case visit_specials value_bits_sign (snd s) (sort_key sp_duid (f_specials f)) of
                  Inl e \<Rightarrow> Inl e
                | Inr sp \<Rightarrow>
                    Inr (f\<lparr>f_comb := fst c @ lowerer_comb (snd sp), f_sync := fst s,
                          f_specials := fst sp\<rparr>))))"

text \<open>
  \<^verbatim>\<open>insert_resets(f)\<close> of migen: in every domain of \<^verbatim>\<open>f.sync\<close> whose descriptor has a reset
  signal, one \<^verbatim>\<open>If(ResetSignal(k), ...)\<close> is put after the statements of the domain; it
  assigns its reset value to every target of these statements that is not
  \<^verbatim>\<open>reset_less\<close>, in the order of the \<^verbatim>\<open>duid\<close>s. \<open>statement_targets\<close> is migen's
  \<^verbatim>\<open>list_targets\<close>.
\<close>

definition insert_reset :: "(stmt list \<Rightarrow> signal list) \<Rightarrow> expr \<Rightarrow> stmt list \<Rightarrow> stmt list" where
  "insert_reset statement_targets rst_expr sl =
     sl @ [If rst_expr
             (map (\<lambda>t. Assign (Signal t) (Constant (reset t)))
                (filter (\<lambda>t. \<not> reset_less t) (sort_key duid (statement_targets sl)))) []]"

fun insert_resets_items ::
  "(stmt list \<Rightarrow> signal list) \<Rightarrow> clock_domain list \<Rightarrow> (string \<times> stmt list) list \<Rightarrow>
   error + (string \<times> stmt list) list" where
  "insert_resets_items statement_targets cds [] = Inr []"
| "insert_resets_items statement_targets cds (kv # sync) =
     (case get_clock_domain cds (fst kv) of
        Inl e \<Rightarrow> Inl e
      | Inr cd \<Rightarrow>
          (case insert_resets_items statement_targets cds sync of
             Inl e \<Rightarrow> Inl e
           | Inr rest \<Rightarrow>
               Inr ((fst kv, if rst cd = None then snd kv
                             else insert_reset statement_targets (ResetSignal (fst kv)) (snd kv)) # rest)))"

definition insert_resets :: "(stmt list \<Rightarrow> signal list) \<Rightarrow> fragment \<Rightarrow> error + fragment" where
  "insert_resets statement_targets f =
     (case insert_resets_items statement_targets (f_clock_domains f) (f_sync f) of
        Inl e \<Rightarrow> Inl e
      | Inr sync \<Rightarrow> Inr (f\<lparr>f_sync := sync\<rparr>))"

subsection \<open>Banner, trailer, separators, timescale, hierarchy\<close>

text \<open>
  The revision (\<^verbatim>\<open>get_litex_git_revision()\<close>) and the formatted time of the call
  (\<^verbatim>\<open>strftime("%Y-%m-%d %H:%M:%S")\<close>) are arguments.
\<close>

definition generate_banner :: "string \<Rightarrow> string \<Rightarrow> string \<Rightarrow> string \<Rightarrow> string" where
  "generate_banner filename device revision date =
     ''// -----------------------------------------------------------------------------\<newline>'' @
     ''// Auto-Generated by:        __   _ __      _  __\<newline>'' @
     ''//                          / /  (_) /____ | |/_/\<newline>'' @
     ''//                         / /__/ / __/ -_)>  <\<newline>'' @
     ''//                        /____/_/'' @ [CHR 0x5C] @ ''__/'' @ [CHR 0x5C] @ ''__/_/|_|\<newline>'' @
     ''//                     Build your hardware, easily!\<newline>'' @
     ''//                   https://github.com/enjoy-digital/litex\<newline>'' @
     ''//\<newline>'' @
     ''// Filename   : '' @ filename @ ''.v\<newline>'' @
     ''// Device     : '' @ device @ ''\<newline>'' @
     ''// LiteX sha1 : '' @ revision @ ''\<newline>'' @
     ''// Date       : '' @ date @ ''\<newline>'' @
     ''//------------------------------------------------------------------------------\<newline>\<newline>''"

definition generate_trailer :: "string \<Rightarrow> string" where
  "generate_trailer date =
     ''\<newline>// -----------------------------------------------------------------------------\<newline>'' @
     ''//  Auto-Generated by LiteX on '' @ date @ ''.\<newline>'' @
     ''//------------------------------------------------------------------------------\<newline>''"

definition generate_separator :: "string \<Rightarrow> string" where
  "generate_separator msg =
     ''\<newline>'' @
     ''//'' @ replicate 78 CHR ''-'' @ ''\<newline>'' @
     ''// '' @ msg @ ''\<newline>'' @
     ''//'' @ replicate 78 CHR ''-'' @ ''\<newline>'' @
     ''\<newline>''"

definition generate_timescale :: "string \<Rightarrow> string \<Rightarrow> string" where
  "generate_timescale time_unit time_precision =
     [CHR 0x60] @ ''timescale '' @ time_unit @ '' / '' @ time_precision @ ''\<newline>''"

text \<open>Python's \<^verbatim>\<open>s.split("\n")\<close>.\<close>

fun split_lines :: "string \<Rightarrow> string list" where
  "split_lines [] = [[]]"
| "split_lines (c # s) =
     (if c = CHR 10 then [] # split_lines s
      else (case split_lines s of l # ls \<Rightarrow> (c # l) # ls | [] \<Rightarrow> [[c]]))"

text \<open>
  \<open>hierarchy\<close> is \<open>None\<close> when \<^verbatim>\<open>top\<close> is \<^verbatim>\<open>None\<close>, and the text of
  \<^verbatim>\<open>hierarchy_explorer.get_hierarchy()\<close> otherwise.
\<close>

definition generate_hierarchy :: "string option \<Rightarrow> string" where
  "generate_hierarchy hierarchy =
     (case hierarchy of
        None \<Rightarrow> []
      | Some h \<Rightarrow>
          butlast (''/*\<newline>'' @ concat (map (\<lambda>l. l @ ''\<newline>'') (split_lines h))) @ ''*/\<newline>'')"

subsection \<open>Reserved keywords\<close>

text \<open>The set \<^verbatim>\<open>_ieee_1800_2017_verilog_reserved_keywords\<close>, entry by entry.\<close>

definition ieee_1800_2017_verilog_reserved_keywords :: "string list" where
  "ieee_1800_2017_verilog_reserved_keywords =
    [''accept_on'', ''alias'', ''always'', ''always_comb'', ''always_ff'',
     ''always_latch'', ''and'', ''assert'', ''assign'', ''assume'', ''automatic'',
     ''before'', ''begin'', ''bind'', ''bins'', ''binsof'', ''bit'', ''break'', ''buf'',
     ''bufif0'', ''bufif1'', ''byte'', ''case'', ''casex'', ''casez'', ''cell'',
     ''chandle'', ''checker'', ''class'', ''clocking'', ''cmos'', ''config'', ''const'',
     ''constraint'', ''context'', ''continue'', ''cover'', ''covergroup'', ''coverpoint'',
     ''cross'', ''deassign'', ''default'', ''defparam'', ''design'', ''disable'', ''dist'',
     ''do'', ''edge'', ''else'', ''end'', ''endcase'', ''endchecker'', ''endclass'',
     ''endclocking'', ''endconfig'', ''endfunction'', ''endgenerate'', ''endgroup'',
     ''endinterface'', ''endmodule'', ''endpackage'', ''endprimitive'', ''endprogram'',
     ''endproperty'', ''endsequence'', ''endspecify'', ''endtable'', ''endtask'', ''enum'',
     ''event'', ''eventually'', ''expect'', ''export'', ''extends'', ''extern'', ''final'',
     ''first_match'', ''for'', ''force'', ''foreach'', ''forever'', ''fork'', ''forkjoin'',
     ''function'', ''generate'', ''genvar'', ''global'', ''highz0'', ''highz1'', ''if'',
     ''iff'', ''ifnone'', ''ignore_bins'', ''illegal_bins'', ''implements'', ''implies'',
     ''import'', ''incdir'', ''include'', ''initial'', ''inout'', ''input'', ''inside'',
     ''instance'', ''int'', ''integer'', ''interconnect'', ''interface'', ''intersect'',
     ''join'', ''join_any'', ''join_none'', ''large'', ''let'', ''liblist'', ''library'',
     ''local'', ''localparam'', ''logic'', ''longint'', ''macromodule'', ''matches'',
     ''medium'', ''modport'', ''module'', ''nand'', ''negedge'', ''nettype'', ''new'',
     ''nexttime'', ''nmos'', ''nor'', ''noshowcancelled'', ''not'', ''notif0'', ''notif1'',
     ''null'', ''or'', ''output'', ''package'', ''packed'', ''parameter'', ''pmos'',
     ''posedge'', ''primitive'', ''priority'', ''program'', ''property'', ''protected'',
     ''pull0'', ''pull1'', ''pulldown'', ''pullup'', ''pulsestyle_ondetect'',
     ''pulsestyle_onevent'', ''pure'', ''rand'', ''randc'', ''randcase'', ''randsequence'',
     ''rcmos'', ''real'', ''realtime'', ''ref'', ''reg'', ''reject_on'', ''release'',
     ''      repeat'', ''restrict'', ''return'', ''rnmos'', ''rpmos'', ''rtran'',
     ''rtranif0'', ''rtranif1'', ''s_always'', ''s_eventually'', ''s_nexttime'',
     ''s_until'', ''s_until_with'', ''scalared'', ''sequence'', ''shortint'',
     ''shortreal'', ''showcancelled'', ''signed'', ''small'', ''soft'', ''solve'',
     ''specify'', ''specparam'', ''static'', ''string'', ''strong'', ''strong0'',
     ''strong1'', ''struct'', ''super'', ''supply0'', ''supply1'', ''sync_accept_on'',
     ''sync_reject_on'', ''table'', ''tagged'', ''task'', ''this'', ''throughout'',
     ''time'', ''timeprecision'', ''timeunit'', ''tran'', ''tranif0'', ''tranif1'',
     ''tri'', ''tri0'', ''tri1'', ''triand'', ''trior'', ''trireg'', ''type'', ''typedef'',
     ''       union'', ''unique'', ''unique0'', ''unsigned'', ''until'', ''until_with'',
     ''untyped'', ''use'', ''   uwire'', ''var'', ''vectored'', ''virtual'', ''void'',
     ''wait'', ''wait_order'', ''wand'', ''weak'', ''weak0'', ''weak1'', ''while'',
     ''wildcard'', ''wire'', ''with'', ''within'', ''wor'', ''xnor'', ''xor'']"

subsection \<open>Conversion\<close>

text \<open>
  The check of the clock domains at the head of \<^verbatim>\<open>convert\<close>: the names of
  \<^verbatim>\<open>sorted(list_clock_domains(f))\<close> are looked up in turn, and the first that is not found
  raises.
\<close>

definition unresolved_message :: "clock_domain list \<Rightarrow> string \<Rightarrow> string" where
  "unresolved_message cds name =
     ''Unresolved clock domain '' @ name @ '', availables:\<newline>'' @
     concat (map (\<lambda>f. ''- '' @ cd_name f @ ''\<newline>'') cds)"

fun verify_clock_domains :: "clock_domain list \<Rightarrow> string list \<Rightarrow> error + unit" where
  "verify_clock_domains cds [] = Inr ()"
| "verify_clock_domains cds (name # names) =
     (case get_clock_domain cds name of
        Inl e \<Rightarrow> Inl (Exception (unresolved_message cds name))
      | Inr cd \<Rightarrow> verify_clock_domains cds names)"

text \<open>
  What \<^verbatim>\<open>convert\<close> calls outside this file: the migen passes and listings, and the
  namespace builder of \<^verbatim>\<open>litex.gen.fhdl.namer\<close> together with the printers that read the
  namespace (\<open>namespace_services signals reserved_keywords\<close>; the loop that gives an I/O
  signal its backtrace name before the namespace is built changes only what the builder
  reads, and is part of this parameter). \<open>migen_statement_targets\<close> is \<^verbatim>\<open>list_targets\<close> on a
  list of statements, \<open>migen_list_targets\<close> on a fragment, \<open>migen_case_order\<close> the sort key
  of \<^verbatim>\<open>visit_Case\<close>.
\<close>

record helpers =
  migen_group_by_targets :: "stmt list \<Rightarrow> group list"
  migen_flat_iteration :: "stmt list \<Rightarrow> stmt list"
  migen_list_clock_domains :: "fragment \<Rightarrow> string list"
  migen_list_signals :: "fragment \<Rightarrow> signal list"
  migen_list_special_ios :: "fragment \<Rightarrow> bool \<Rightarrow> bool \<Rightarrow> bool \<Rightarrow> signal list"
  migen_list_targets :: "fragment \<Rightarrow> signal list"
  migen_statement_targets :: "stmt list \<Rightarrow> signal list"
  migen_value_bits_sign :: "expr \<Rightarrow> nat \<times> bool"
  migen_case_order :: "case_key \<Rightarrow> int"
  migen_lower_basics :: "fragment \<Rightarrow> fragment"
  migen_lower_specials :: "fragment \<Rightarrow> fragment \<times> special list"
  namespace_services :: "signal list \<Rightarrow> string list \<Rightarrow> services"

text \<open>
  The arguments of \<^verbatim>\<open>convert\<close> and what it reads from its surroundings: \<open>c_platform_ios\<close>
  is \<open>None\<close> when \<^verbatim>\<open>platform\<close> is \<^verbatim>\<open>None\<close> and the platform's I/O signals otherwise,
  \<open>c_device\<close> is \<^verbatim>\<open>getattr(platform, "device", "Unknown")\<close>, \<open>c_hierarchy\<close> the hierarchy of
  \<^verbatim>\<open>LiteXContext.top\<close>, \<open>c_banner_date\<close> and \<open>c_trailer_date\<close> the two readings of the
  clock, \<open>c_next_duid\<close> the state of migen's object counter.
\<close>

record config =
  c_ios :: "signal list"
  c_name :: string
  c_platform_ios :: "signal list option"
  c_device :: string
  c_special_emitters :: special_emitters
  c_attr_translate :: attr_translate
  c_regular_comb :: bool
  c_regs_init :: bool
  c_time_unit :: string
  c_time_precision :: string
  c_hierarchy :: "string option"
  c_revision :: string
  c_banner_date :: string
  c_trailer_date :: string
  c_next_duid :: nat

definition signal_sets_of :: "helpers \<Rightarrow> fragment \<Rightarrow> signal_sets" where
  "signal_sets_of hp f =
     \<lparr>sigs = List.union (migen_list_signals hp f) (migen_list_special_ios hp f True True True),
      special_outs = migen_list_special_ios hp f False True True,
      inouts = migen_list_special_ios hp f False False True,
      targets = migen_list_targets hp f\<rparr>"

text \<open>
  The part of \<^verbatim>\<open>convert\<close> after the lowering passes: namespace and text. In the set
  difference \<^verbatim>\<open>f.specials - lowered_specials\<close> a special is the object of its \<^verbatim>\<open>duid\<close>.
\<close>

definition build_verilog ::
  "helpers \<Rightarrow> config \<Rightarrow> fragment \<Rightarrow> special list \<Rightarrow> signal list \<Rightarrow> error + string" where
  "build_verilog hp cfg f lowered_specials ios =
     (let sets = signal_sets_of hp f;
          sv = namespace_services hp (List.union (sigs sets) ios)
                 ieee_1800_2017_verilog_reserved_keywords
      in collect
        [Inr (generate_banner (c_name cfg) (c_device cfg) (c_revision cfg) (c_banner_date cfg)),
         Inr (generate_timescale (c_time_unit cfg) (c_time_precision cfg)),
         Inr (generate_separator ''Module''),
         Inr (generate_module sv (c_attr_translate cfg) (migen_group_by_targets hp) sets
                (f_comb f) ios (c_name cfg)),
         Inr (generate_separator ''Hierarchy''),
         Inr (generate_hierarchy (c_hierarchy cfg)),
         Inr (generate_separator ''Signals''),
         Inr (generate_signals sv (c_attr_translate cfg) (migen_group_by_targets hp) sets
                (f_comb f) ios (c_regs_init cfg)),
         Inr (generate_separator ''Combinatorial Logic''),
         (if c_regular_comb cfg
          then generate_combinatorial_logic_synth sv (migen_group_by_targets hp) (f_comb f)
          else generate_combinatorial_logic_sim sv (migen_flat_iteration hp) (f_comb f)),
         Inr (generate_separator ''Synchronous Logic''),
         generate_synchronous_logic sv (f_clock_domains f) (f_sync f),
         Inr (generate_separator ''Specialized Logic''),
         generate_specials (c_attr_translate cfg) (c_special_emitters cfg)
           (filter (\<lambda>s. sp_duid s \<notin> sp_duid ` set lowered_specials) (f_specials f)),
         Inr ''endmodule\<newline>'',
         Inr (generate_trailer (c_trailer_date cfg))])"

text \<open>
  The lowering passes of \<^verbatim>\<open>convert\<close>, in their order; the result is the lowered fragment
  and the specials that \<^verbatim>\<open>lower_specials\<close> lowered.
\<close>

definition lower_fragment :: "helpers \<Rightarrow> config \<Rightarrow> fragment \<Rightarrow> error + (fragment \<times> special list)" where
  "lower_fragment hp cfg f =
     (case lower_complex_slices (migen_value_bits_sign hp) (migen_case_order hp)
             (c_next_duid cfg) f of
        Inl e \<Rightarrow> Inl e
      | Inr f1 \<Rightarrow>
          (case insert_resets (migen_statement_targets hp) f1 of
             Inl e \<Rightarrow> Inl e
           | Inr f2 \<Rightarrow>
               (let f3 = migen_lower_basics hp f2;
                    fl = migen_lower_specials hp f3
                in Inr (migen_lower_basics hp (fst fl), snd fl))))"

text \<open>\<^verbatim>\<open>convert\<close>, on a fragment; the result is the main source of the \<^verbatim>\<open>ConvOutput\<close>.\<close>

definition convert :: "helpers \<Rightarrow> config \<Rightarrow> fragment \<Rightarrow> error + string" where
  "convert hp cfg f =
     (case verify_clock_domains (f_clock_domains f) (sort (migen_list_clock_domains hp f)) of
        Inl e \<Rightarrow> Inl e
      | Inr u \<Rightarrow>
          (case lower_fragment hp cfg f of
             Inl e \<Rightarrow> Inl e
           | Inr fl \<Rightarrow>
               (if c_ios cfg = []
                then (case c_platform_ios cfg of
                        None \<Rightarrow> Inl AssertionError
                      | Some ios \<Rightarrow> build_verilog hp cfg (fst fl) (snd fl) ios)
                else build_verilog hp cfg (fst fl) (snd fl) (c_ios cfg))))"

subsection \<open>The namespace builder\<close>

text \<open>
  Modelled from the spec: the namespace builder \<^verbatim>\<open>build_signal_namespace\<close> (module
  \<^verbatim>\<open>litex.gen.fhdl.namer\<close>, not among the sources). Following section 4.1 of the spec:
  the base name of a signal is its name override when it has one and a synthesized
  default otherwise; a name that is a reserved keyword or already given is replaced by the
  first of \<open>name_1\<close>, \<open>name_2\<close>, ... that is neither; the signals are taken in order of
  \<^verbatim>\<open>duid\<close>, so that the result is determined by the input.
\<close>

definition preferred_name :: "signal \<Rightarrow> string" where
  "preferred_name s = (case name_override s of Some n \<Rightarrow> n | None \<Rightarrow> ''sig'' @ str_nat (duid s))"

definition candidate_names :: "string \<Rightarrow> nat \<Rightarrow> string list" where
  "candidate_names base n = base # map (\<lambda>i. base @ ''_'' @ str_nat i) [1..<Suc n]"

definition free_name :: "string list \<Rightarrow> string list \<Rightarrow> string \<Rightarrow> string" where
  "free_name reserved_keywords used base =
     (case find (\<lambda>c. c \<notin> set reserved_keywords \<and> c \<notin> set used)
             (candidate_names base (length reserved_keywords + length used + 1)) of
        Some c \<Rightarrow> c
      | None \<Rightarrow> base)"

fun assign_names :: "string list \<Rightarrow> (signal \<times> string) list \<Rightarrow> signal list \<Rightarrow> (signal \<times> string) list" where
  "assign_names reserved_keywords names [] = names"
| "assign_names reserved_keywords names (s # signals) =
     assign_names reserved_keywords
       (names @ [(s, free_name reserved_keywords (map snd names) (preferred_name s))]) signals"

definition build_signal_namespace :: "signal list \<Rightarrow> string list \<Rightarrow> (signal \<times> string) list" where
  "build_signal_namespace signals reserved_keywords =
     assign_names reserved_keywords [] (sort_key duid signals)"

section \<open>Predicates of the properties\<close>

text \<open>
  The signals of an expression and of statements, and the property that every slice has a
  signal as its operand.
\<close>

fun signals_of :: "expr \<Rightarrow> signal set" where
  "signals_of (Constant c) = {}"
| "signals_of (Signal s) = {s}"
| "signals_of (Operator op es) = (\<Union>e\<in>set es. signals_of e)"
| "signals_of (Slice v a b) = signals_of v"
| "signals_of (Cat l) = (\<Union>e\<in>set l. signals_of e)"
| "signals_of (Replicate v n) = signals_of v"
| "signals_of (ResetSignal cd) = {}"

text \<open>Every slice in the expression has a signal as its operand, and one that satisfies \<open>Q\<close>.\<close>

fun slices_on :: "(signal \<Rightarrow> bool) \<Rightarrow> expr \<Rightarrow> bool" where
  "slices_on Q (Constant c) = True"
| "slices_on Q (Signal s) = True"
| "slices_on Q (Operator op es) = (\<forall>e\<in>set es. slices_on Q e)"
| "slices_on Q (Slice v a b) = (case v of Signal s \<Rightarrow> Q s | _ \<Rightarrow> False)"
| "slices_on Q (Cat l) = (\<forall>e\<in>set l. slices_on Q e)"
| "slices_on Q (Replicate v n) = slices_on Q v"
| "slices_on Q (ResetSignal cd) = True"

fun stmt_signals :: "stmt \<Rightarrow> signal set"
  and stmts_signals :: "stmt list \<Rightarrow> signal set"
  and cases_signals :: "(case_key \<times> stmt list) list \<Rightarrow> signal set"
where
  "stmt_signals (Assign l r) = signals_of l \<union> signals_of r"
| "stmt_signals (Block node) = stmts_signals node"
| "stmt_signals (If cond t f) = signals_of cond \<union> stmts_signals t \<union> stmts_signals f"
| "stmt_signals (Case test cases) = signals_of test \<union> cases_signals cases"
| "stmt_signals (Display s args) = {}"
| "stmt_signals Finish = {}"
| "stmt_signals (Unknown ty) = {}"
| "stmts_signals [] = {}"
| "stmts_signals (s # ss) = stmt_signals s \<union> stmts_signals ss"
| "cases_signals [] = {}"
| "cases_signals (kv # cases) = stmts_signals (snd kv) \<union> cases_signals cases"

fun stmt_slices_on :: "(signal \<Rightarrow> bool) \<Rightarrow> stmt \<Rightarrow> bool"
  and stmts_slices_on :: "(signal \<Rightarrow> bool) \<Rightarrow> stmt list \<Rightarrow> bool"
  and cases_slices_on :: "(signal \<Rightarrow> bool) \<Rightarrow> (case_key \<times> stmt list) list \<Rightarrow> bool"
where
  "stmt_slices_on Q (Assign l r) = (slices_on Q l \<and> slices_on Q r)"
| "stmt_slices_on Q (Block node) = stmts_slices_on Q node"
| "stmt_slices_on Q (If cond t f) =
     (slices_on Q cond \<and> stmts_slices_on Q t \<and> stmts_slices_on Q f)"
| "stmt_slices_on Q (Case test cases) = (slices_on Q test \<and> cases_slices_on Q cases)"
| "stmt_slices_on Q (Display s args) = True"
| "stmt_slices_on Q Finish = True"
| "stmt_slices_on Q (Unknown ty) = True"
| "stmts_slices_on Q [] = True"
| "stmts_slices_on Q (s # ss) = (stmt_slices_on Q s \<and> stmts_slices_on Q ss)"
| "cases_slices_on Q [] = True"
| "cases_slices_on Q (kv # cases) = (stmts_slices_on Q (snd kv) \<and> cases_slices_on Q cases)"

text \<open>A signal that the pass created: numbered from \<open>d\<close> on, and as \<open>new_signal\<close> makes it.\<close>

definition is_proxy :: "nat \<Rightarrow> signal \<Rightarrow> bool" where
  "is_proxy d s = (d \<le> duid s \<and> s = new_signal (duid s) (nbits s, signed s))"

definition lowerer_ok :: "(signal \<Rightarrow> bool) \<Rightarrow> nat \<Rightarrow> lowerer \<Rightarrow> bool" where
  "lowerer_ok Q d st = (d \<le> next_duid st \<and> stmts_slices_on Q (lowerer_comb st))"

definition fragment_signals :: "fragment \<Rightarrow> signal set" where
  "fragment_signals f = stmts_signals (f_comb f) \<union> (\<Union>kv\<in>set (f_sync f). stmts_signals (snd kv))"

text \<open>The pieces of \<^verbatim>\<open>build_verilog\<close> between the banner and the trailer.\<close>

definition build_body ::
  "helpers \<Rightarrow> config \<Rightarrow> fragment \<Rightarrow> special list \<Rightarrow> signal list \<Rightarrow> error + string" where
  "build_body hp cfg f lowered_specials ios =
     (let sets = signal_sets_of hp f;
          sv = namespace_services hp (List.union (sigs sets) ios)
                 ieee_1800_2017_verilog_reserved_keywords
      in collect
        [Inr (generate_timescale (c_time_unit cfg) (c_time_precision cfg)),
         Inr (generate_separator ''Module''),
         Inr (generate_module sv (c_attr_translate cfg) (migen_group_by_targets hp) sets
                (f_comb f) ios (c_name cfg)),
         Inr (generate_separator ''Hierarchy''),
         Inr (generate_hierarchy (c_hierarchy cfg)),
         Inr (generate_separator ''Signals''),
         Inr (generate_signals sv (c_attr_translate cfg) (migen_group_by_targets hp) sets
                (f_comb f) ios (c_regs_init cfg)),
         Inr (generate_separator ''Combinatorial Logic''),
         (if c_regular_comb cfg
          then generate_combinatorial_logic_synth sv (migen_group_by_targets hp) (f_comb f)
          else generate_combinatorial_logic_sim sv (migen_flat_iteration hp) (f_comb f)),
         Inr (generate_separator ''Synchronous Logic''),
         generate_synchronous_logic sv (f_clock_domains f) (f_sync f),
         Inr (generate_separator ''Specialized Logic''),
         generate_specials (c_attr_translate cfg) (c_special_emitters cfg)
           (filter (\<lambda>s. sp_duid s \<notin> sp_duid ` set lowered_specials) (f_specials f)),
         Inr ''endmodule\<newline>''])"

text \<open>
  One narrowing step on a node and a start: from a concatenation to the operand that
  \<^verbatim>\<open>_lower_slice_cat\<close> finds, from a replication to its operand when the slice lies in
  one period. \<open>narrows\<close> is the step as a relation.
\<close>

fun narrow_step :: "(expr \<Rightarrow> nat) \<Rightarrow> int \<Rightarrow> expr \<times> int \<Rightarrow> (expr \<times> int) option" where
  "narrow_step len length' (Cat l, start) = cat_operand len l 0 start length'"
| "narrow_step len length' (Replicate v n, start) =
     (if 0 < len v \<and> start div int (len v) = (start + length' - 1) div int (len v)
      then Some (v, start mod int (len v)) else None)"
| "narrow_step len length' (node, start) = None"

definition narrows :: "(expr \<Rightarrow> nat) \<Rightarrow> int \<Rightarrow> expr \<times> int \<Rightarrow> expr \<times> int \<Rightarrow> bool" where
  "narrows len length' x y = (narrow_step len length' x = Some y)"
section \<open>Concrete instances\<close>

text \<open>
  Small printers standing in for the expression printer and the namespace, a width
  function and a few fragments, to evaluate the definitions at concrete inputs. The target
  filter is not used in the examples.
\<close>

definition example_name :: "signal \<Rightarrow> string" where
  "example_name s = (case name_override s of Some n \<Rightarrow> n | None \<Rightarrow> ''sig'' @ str_nat (duid s))"

fun example_expr :: "expr \<Rightarrow> string" where
  "example_expr (Constant c) = str_int (cvalue c)"
| "example_expr (Signal s) = example_name s"
| "example_expr (Slice v a b) = example_expr v @ ''['' @ str_int a @ '':'' @ str_int b @ '']''"
| "example_expr (Operator op es) = op"
| "example_expr (Cat es) = ''{}''"
| "example_expr (Replicate v n) = ''{{}}''"
| "example_expr (ResetSignal cd) = cd @ ''_rst''"

fun example_is_variable :: "expr \<Rightarrow> bool" where
  "example_is_variable (Signal s) = variable s"
| "example_is_variable (Slice v a b) = example_is_variable v"
| "example_is_variable e = False"

definition example_services :: services where
  "example_services =
     \<lparr>get_name = example_name, gen_expr = example_expr, gen_signal = example_name,
      list_targets = (\<lambda>node. []), is_variable = example_is_variable,
      str_value = (\<lambda>e. ''<value>'')\<rparr>"

definition sig :: "nat \<Rightarrow> string \<Rightarrow> signal" where
  "sig d n = \<lparr>duid = d, nbits = 1, signed = False,
     reset = \<lparr>cvalue = 0, cnbits = 1, csigned = False\<rparr>, reset_less = False,
     variable = False, name_override = Some n, attr = []\<rparr>"

definition const :: "int \<Rightarrow> cst" where
  "const v = \<lparr>cvalue = v, cnbits = 2, csigned = False\<rparr>"

definition example_comb :: "stmt list" where
  "example_comb =
     [Assign (Signal (sig 8 ''x'')) (Operator ''a & b'' []),
      If (Signal (sig 2 ''sel'')) [Assign (Signal (sig 3 ''y'')) (Constant (const 1))] []]"

text \<open>A grouping for statements with distinct targets: one group for each statement.\<close>

fun example_targets :: "stmt \<Rightarrow> signal list" where
  "example_targets (Assign (Signal t) r) = [t]"
| "example_targets (If c (Assign (Signal t) r # ss) f) = [t]"
| "example_targets s = []"

definition example_groups :: "stmt list \<Rightarrow> group list" where
  "example_groups comb = map (\<lambda>s. (example_targets s, [s])) comb"

definition var :: "nat \<Rightarrow> string \<Rightarrow> signal" where
  "var d n = (sig d n)\<lparr>variable := True\<rparr>"

definition example_clock_domains :: "clock_domain list" where
  "example_clock_domains =
     [\<lparr>cd_name = ''sys'', clk = sig 10 ''sys_clk'', rst = Some (sig 12 ''sys_rst'')\<rparr>,
      \<lparr>cd_name = ''por'', clk = sig 11 ''por_clk'', rst = None\<rparr>]"

definition example_sync :: "(string \<times> stmt list) list" where
  "example_sync =
     [(''sys'', [Assign (Signal (sig 4 ''q'')) (Signal (sig 5 ''d'')),
                 Assign (Signal (var 6 ''v'')) (Signal (sig 5 ''d''))]),
      (''por'', [Assign (Signal (sig 7 ''p'')) (Constant (const 1))])]"

definition example_helpers :: helpers where
  "example_helpers =
     \<lparr>migen_group_by_targets = example_groups,
      migen_flat_iteration = (\<lambda>stmts. stmts),
      migen_list_clock_domains = (\<lambda>f. remdups (map fst (f_sync f) @ map cd_name (f_clock_domains f))),
      migen_list_signals = (\<lambda>f. []),
      migen_list_special_ios = (\<lambda>f ins outs inouts. []),
      migen_list_targets = (\<lambda>f. []),
      migen_statement_targets = (\<lambda>stmts. remdups (concat (map example_targets stmts))),
      migen_value_bits_sign = (\<lambda>e. (8, False)),
      migen_case_order = (\<lambda>k. case k of KDefault \<Rightarrow> - 1 | KConstant c \<Rightarrow> cvalue c),
      migen_lower_basics = (\<lambda>f. f),
      migen_lower_specials = (\<lambda>f. (f, [])),
      namespace_services = (\<lambda>signals reserved_keywords. example_services)\<rparr>"

definition example_emitters :: special_emitters where
  "example_emitters =
     \<lparr>memory_generate_verilog = (\<lambda>s. Some ''// memory\<newline>''),
      instance_generate_verilog = (\<lambda>s. Some ''// instance\<newline>''),
      emit_verilog = (\<lambda>s. None)\<rparr>"

definition example_config :: config where
  "example_config =
     \<lparr>c_ios = [sig 10 ''sys_clk''], c_name = ''top'', c_platform_ios = None,
      c_device = ''Unknown'', c_special_emitters = example_emitters,
      c_attr_translate = (\<lambda>a. None), c_regular_comb = True, c_regs_init = True,
      c_time_unit = ''1ns'', c_time_precision = ''1ps'', c_hierarchy = None,
      c_revision = ''0000000'', c_banner_date = ''2023-01-01 00:00:00'',
      c_trailer_date = ''2023-01-01 00:00:00'', c_next_duid = 100\<rparr>"

definition example_unresolved :: fragment where
  "example_unresolved =
     \<lparr>f_comb = [],
      f_sync = [(''video'', [Assign (Signal (sig 4 ''q'')) (Signal (sig 5 ''d''))]),
                (''sys'', [Assign (Signal (sig 7 ''p'')) (Signal (sig 5 ''d''))])],
      f_specials = [],
      f_clock_domains = [\<lparr>cd_name = ''sys'', clk = sig 10 ''sys_clk'', rst = None\<rparr>]\<rparr>"

definition example_memory :: special where
  "example_memory = \<lparr>sp_duid = 7, sp_kind = Memory, sp_attr = None, sp_str = ''mem'',
      sp_expressions = []\<rparr>"

definition example_instance :: special where
  "example_instance =
     \<lparr>sp_duid = 3, sp_kind = Instance,
      sp_attr = Some [Platform ''keep'' (StrValue ''true'')], sp_str = ''inst'',
      sp_expressions = []\<rparr>"

definition example_tristate :: special where
  "example_tristate = \<lparr>sp_duid = 5, sp_kind = Other, sp_attr = None, sp_str = ''tristate'',
      sp_expressions = []\<rparr>"

definition example_y :: signal where
  "example_y = (sig 3 ''y'')\<lparr>reset := \<lparr>cvalue = 5, cnbits = 3, csigned = False\<rparr>\<rparr>"

definition example_latch :: "stmt list" where
  "example_latch = [If (Signal (sig 2 ''sel'')) [Assign (Signal example_y) (Constant (const 1))] []]"

fun example_len :: "expr \<Rightarrow> nat" where
  "example_len (Constant c) = cnbits c"
| "example_len (Signal s) = nbits s"
| "example_len (Operator op es) = 1"
| "example_len (Slice v a b) = nat (b - a)"
| "example_len (Cat l) = sum_list (map example_len l)"
| "example_len (Replicate v n) = example_len v * n"
| "example_len (ResetSignal cd) = 1"

definition bus :: "nat \<Rightarrow> string \<Rightarrow> nat \<Rightarrow> signal" where
  "bus d n w = (sig d n)\<lparr>nbits := w\<rparr>"

definition example_bits_sign :: "expr \<Rightarrow> nat \<times> bool" where
  "example_bits_sign e = (example_len e, False)"

definition example_slices :: fragment where
  "example_slices =
     \<lparr>f_comb = [Assign (Signal (bus 22 ''o'' 3))
                  (Slice (Cat [Signal (bus 20 ''a'' 4), Signal (bus 21 ''b'' 8)]) 3 6),
                Assign (Signal (bus 23 ''p'' 3))
                  (Slice (Cat [Signal (bus 20 ''a'' 4), Signal (bus 21 ''b'' 8)]) 5 8)],
      f_sync = [], f_specials = [], f_clock_domains = []\<rparr>"

definition example_slices_lowered :: fragment where
  "example_slices_lowered =
     \<lparr>f_comb = [Assign (Signal (bus 22 ''o'' 3))
                  (Slice (Signal (new_signal 100 (12, False))) 3 6),
                Assign (Signal (bus 23 ''p'' 3)) (Slice (Signal (bus 21 ''b'' 8)) 1 4),
                Assign (Signal (new_signal 100 (12, False)))
                  (Cat [Signal (bus 20 ''a'' 4), Signal (bus 21 ''b'' 8)])],
      f_sync = [], f_specials = [], f_clock_domains = []\<rparr>"

definition example_design :: fragment where
  "example_design =
     \<lparr>f_comb = example_comb, f_sync = example_sync,
      f_specials = [example_memory, example_instance],
      f_clock_domains = example_clock_domains\<rparr>"

section \<open>Properties\<close>

subsection \<open>Helper lemmas\<close>

lemma filter_key_single:
  "distinct (map f zs) \<Longrightarrow> k \<in> set zs \<Longrightarrow> filter (\<lambda>x. f k = f x) zs = [k]"
proof (induction zs)
  case Nil
  then show ?case by simp
next
  case (Cons z zs)
  show ?case
  proof (cases "k = z")
    case True
    with Cons.prems have "\<forall>x\<in>set zs. f k \<noteq> f x"
      by auto
    then have "filter (\<lambda>x. f k = f x) zs = []"
      by (simp add: filter_empty_conv)
    with True show ?thesis by simp
  next
    case False
    with Cons.prems have kz: "k \<in> set zs"
      by simp
    have "f z \<notin> f ` set zs"
      using Cons.prems(1) by simp
    moreover have "f k \<in> f ` set zs"
      using kz by (rule imageI)
    ultimately have "f k \<noteq> f z"
      by metis
    with Cons.IH Cons.prems(1) kz show ?thesis by simp
  qed
qed

lemma sort_key_perm:
  assumes d: "distinct (map f xs)" and m: "mset ys = mset xs"
  shows "sort_key f ys = sort_key f xs"
proof -
  have dy: "distinct (map f (sort_key f ys))"
    using d m by (metis mset_eq_imp_distinct_iff mset_map mset_sort)
  have "sort_key f xs = sort_key f ys"
  proof (rule properties_for_sort_key)
    show "mset (sort_key f ys) = mset xs"
      using m by simp
    show "sorted (map f (sort_key f ys))"
      by simp
    fix k assume k: "k \<in> set (sort_key f ys)"
    then have "k \<in> set xs"
      using m by (metis mset_eq_setD set_sort)
    with d k dy show "filter (\<lambda>x. f k = f x) (sort_key f ys) = filter (\<lambda>x. f k = f x) xs"
      by (simp add: filter_key_single)
  qed
  then show ?thesis by simp
qed

lemma css_sorted: "sorted (map key_value (css cases))"
  by (simp add: css_def)

lemma css_perm:
  assumes "distinct (map key_value (filter is_KConstant cases))" and "mset cases' = mset cases"
  shows "css cases' = css cases"
  unfolding css_def using assms by (intro sort_key_perm) simp_all

lemma map_of_perm:
  assumes "distinct (map fst cases)" and "mset cases' = mset cases"
  shows "map_of cases' = map_of cases"
  by (metis assms(1,2) map_of_inject_set mset_eq_imp_distinct_iff
    mset_eq_setD mset_map)

lemma not_filtered_None [simp]: "\<not> filtered_out sv None node"
  by (simp add: filtered_out_def)

lemma collect_Inr: "collect (map Inr xs) = Inr (concat xs)"
  by (induction xs) simp_all

lemma collect_append:
  "collect (ps @ qs) =
     (case collect ps of Inl e \<Rightarrow> Inl e
      | Inr a \<Rightarrow> (case collect qs of Inl e \<Rightarrow> Inl e | Inr b \<Rightarrow> Inr (a @ b)))"
proof (induction ps rule: collect.induct)
  case 1
  show ?case by (simp split: sum.splits)
next
  case (2 e ps)
  show ?case by simp
next
  case (3 s ps)
  then show ?case by (simp split: sum.splits)
qed

lemma collect_all_Inr:
  "\<forall>p\<in>set ps. \<exists>s. p = Inr s \<Longrightarrow> collect ps = Inr (concat (map projr ps))"
proof (induction ps rule: collect.induct)
  case 1
  show ?case by simp
next
  case (2 e ps)
  then show ?case by simp
next
  case (3 s ps)
  then show ?case by simp
qed

lemma use_wire_iff: "use_wire stmts \<longleftrightarrow> (\<exists>l r. stmts = [Assign l r] \<and> \<not> is_Slice l)"
proof
  assume u: "use_wire stmts"
  then obtain s where s: "stmts = [s]"
    by (cases stmts) (auto simp: use_wire_def)
  with u show "\<exists>l r. stmts = [Assign l r] \<and> \<not> is_Slice l"
    by (cases s) (auto simp: use_wire_def)
next
  assume "\<exists>l r. stmts = [Assign l r] \<and> \<not> is_Slice l"
  then show "use_wire stmts"
    by (auto simp: use_wire_def)
qed

lemma filtered_out_is_variable [simp]:
  "filtered_out (sv\<lparr>is_variable := iv\<rparr>) tf node = filtered_out sv tf node"
  by (cases tf) (simp_all add: filtered_out_def)

lemma iterable_is_variable:
  "(\<And>n. n \<in> set node \<Longrightarrow> g n = g' n) \<Longrightarrow>
   iterable sv tf g node = iterable (sv\<lparr>is_variable := iv\<rparr>) tf g' node"
  by (simp add: iterable_def cong: map_cong)

lemma display_arg_text_is_variable [simp]:
  "display_arg_text (sv\<lparr>is_variable := iv\<rparr>) arg = display_arg_text sv arg"
  by (induction sv arg rule: display_arg_text.induct) simp_all

lemma display_text_is_variable [simp]:
  "display_text (sv\<lparr>is_variable := iv\<rparr>) s args = display_text sv s args"
  by (simp add: display_text_def)

lemma nonblocking_as_signal:
  "generate_node sv NON_BLOCKING level tf node =
   generate_node (sv\<lparr>is_variable := \<lambda>l. False\<rparr>) SIGNAL level tf node"
proof (induction sv NON_BLOCKING level tf node rule: generate_node.induct)
  case (1 sv level tf node)
  then show ?case
    by (simp add: iterable_is_variable)
next
  case (2 sv level tf l r)
  show ?case by simp
next
  case (3 sv level tf cond t f)
  have t: "iterable sv tf (generate_node sv NON_BLOCKING (level + 1) tf) t =
      iterable (sv\<lparr>is_variable := \<lambda>l. False\<rparr>) tf
        (generate_node (sv\<lparr>is_variable := \<lambda>l. False\<rparr>) SIGNAL (level + 1) tf) t"
    if "\<not> filtered_out sv tf [If cond t f]"
    using 3(1) that by (intro iterable_is_variable) simp
  have f: "iterable sv tf (generate_node sv NON_BLOCKING (level + 1) tf) f =
      iterable (sv\<lparr>is_variable := \<lambda>l. False\<rparr>) tf
        (generate_node (sv\<lparr>is_variable := \<lambda>l. False\<rparr>) SIGNAL (level + 1) tf) f"
    if "\<not> filtered_out sv tf [If cond t f]" "f \<noteq> []"
    using 3(2) that by (intro iterable_is_variable) simp
  show ?case
    using t f by (simp del: collect.simps)
next
  case (4 sv level tf test cases)
  have b: "iterable sv tf (generate_node sv NON_BLOCKING (level + 2) tf) (snd choice) =
      iterable (sv\<lparr>is_variable := \<lambda>l. False\<rparr>) tf
        (generate_node (sv\<lparr>is_variable := \<lambda>l. False\<rparr>) SIGNAL (level + 2) tf) (snd choice)"
    if "\<not> filtered_out sv tf [Case test cases]" "cases \<noteq> []" "choice \<in> set (css cases)"
    for choice
    using 4(1) that by (intro iterable_is_variable) simp
  have d: "iterable sv tf (generate_node sv NON_BLOCKING (level + 2) tf) statements =
      iterable (sv\<lparr>is_variable := \<lambda>l. False\<rparr>) tf
        (generate_node (sv\<lparr>is_variable := \<lambda>l. False\<rparr>) SIGNAL (level + 2) tf) statements"
    if "\<not> filtered_out sv tf [Case test cases]" "cases \<noteq> []"
       "map_of cases KDefault = Some statements"
    for statements
    using 4(2) that by (intro iterable_is_variable) simp
  show ?case
    using b d by (simp del: collect.simps split: option.splits cong: map_cong)
qed simp_all

lemma get_clock_domain_Inl_iff:
  "(\<exists>e. get_clock_domain cds name = Inl e) \<longleftrightarrow> name \<notin> cd_name ` set cds"
proof (cases "find (\<lambda>cd. cd_name cd = name) cds")
  case None
  then have "name \<notin> cd_name ` set cds"
    by (auto simp: find_None_iff)
  with None show ?thesis
    by (simp add: get_clock_domain_def)
next
  case (Some cd)
  then have "cd \<in> set cds" and "cd_name cd = name"
    by (auto simp: find_Some_iff)
  with Some show ?thesis
    by (auto simp: get_clock_domain_def)
qed

lemma verify_clock_domains_unresolved:
  assumes "\<exists>name\<in>set names. name \<notin> cd_name ` set cds" and "sorted names"
  shows "\<exists>name\<in>set names. name \<notin> cd_name ` set cds \<and>
           (\<forall>n\<in>set names. n \<notin> cd_name ` set cds \<longrightarrow> name \<le> n) \<and>
           verify_clock_domains cds names = Inl (Exception (unresolved_message cds name))"
  using assms
proof (induction names)
  case Nil
  then show ?case by simp
next
  case (Cons a names)
  show ?case
  proof (cases "a \<in> cd_name ` set cds")
    case True
    then have r: "\<exists>cd. get_clock_domain cds a = Inr cd"
      using get_clock_domain_Inl_iff [of cds a] by (cases "get_clock_domain cds a") auto
    from True Cons.prems have "\<exists>name\<in>set names. name \<notin> cd_name ` set cds" and "sorted names"
      by auto
    from Cons.IH [OF this] obtain name where "name \<in> set names" "name \<notin> cd_name ` set cds"
      "\<forall>n\<in>set names. n \<notin> cd_name ` set cds \<longrightarrow> name \<le> n"
      "verify_clock_domains cds names = Inl (Exception (unresolved_message cds name))"
      by blast
    with r True show ?thesis
      by (intro bexI [of _ name]) auto
  next
    case False
    then have "\<exists>e. get_clock_domain cds a = Inl e"
      using get_clock_domain_Inl_iff [of cds a] by simp
    with False Cons.prems(2) show ?thesis
      by (intro bexI [of _ a]) auto
  qed
qed

lemma verify_clock_domains_resolved:
  "\<forall>name\<in>set names. name \<in> cd_name ` set cds \<Longrightarrow> verify_clock_domains cds names = Inr ()"
proof (induction names)
  case Nil
  show ?case by simp
next
  case (Cons a names)
  then have "\<exists>cd. get_clock_domain cds a = Inr cd"
    using get_clock_domain_Inl_iff [of cds a] by (cases "get_clock_domain cds a") auto
  with Cons show ?case by auto
qed

lemma collect_map_Inr:
  "\<forall>x\<in>set xs. \<exists>s. g x = Inr s \<Longrightarrow> collect (map g xs) = Inr (concat (map (\<lambda>x. projr (g x)) xs))"
proof (induction xs)
  case Nil
  show ?case by simp
next
  case (Cons x xs)
  then obtain s where "g x = Inr s"
    by auto
  with Cons show ?case
    by simp
qed

lemma collect_map_Inl:
  "\<exists>x\<in>set xs. \<exists>e. g x = Inl e \<Longrightarrow> \<exists>x\<in>set xs. \<exists>e. g x = Inl e \<and> collect (map g xs) = Inl e"
proof (induction xs)
  case Nil
  then show ?case by simp
next
  case (Cons x xs)
  show ?case
  proof (cases "g x")
    case (Inl e)
    then show ?thesis by auto
  next
    case (Inr s)
    with Cons.prems have "\<exists>x\<in>set xs. \<exists>e. g x = Inl e"
      by auto
    from Cons.IH [OF this] Inr show ?thesis
      by auto
  qed
qed

lemma cat_operand_iff:
  "cat_operand len l cat_start start length' = Some (e, s) \<longleftrightarrow>
   (\<exists>i<length l. e = l ! i \<and>
      s = start - (cat_start + (\<Sum>x\<leftarrow>take i l. int (len x))) \<and>
      cat_start + (\<Sum>x\<leftarrow>take i l. int (len x)) \<le> start \<and>
      start < cat_start + (\<Sum>x\<leftarrow>take i l. int (len x)) + int (len (l ! i)) \<and>
      start + length' \<le> cat_start + (\<Sum>x\<leftarrow>take i l. int (len x)) + int (len (l ! i)))"
proof (induction l arbitrary: cat_start)
  case Nil
  show ?case by simp
next
  case (Cons a l)
  let ?P = "\<lambda>cs l i. e = l ! i \<and>
      s = start - (cs + (\<Sum>x\<leftarrow>take i l. int (len x))) \<and>
      cs + (\<Sum>x\<leftarrow>take i l. int (len x)) \<le> start \<and>
      start < cs + (\<Sum>x\<leftarrow>take i l. int (len x)) + int (len (l ! i)) \<and>
      start + length' \<le> cs + (\<Sum>x\<leftarrow>take i l. int (len x)) + int (len (l ! i))"
  have shift: "?P cat_start (a # l) (Suc i) \<longleftrightarrow> ?P (cat_start + int (len a)) l i" for i
    by (simp add: add.assoc)
  have nonneg: "0 \<le> (\<Sum>x\<leftarrow>take i l. int (len x))" for i
    by (rule sum_list_nonneg) auto
  show ?case
  proof (cases "cat_start \<le> start \<and> start < cat_start + int (len a) \<and>
      cat_start + int (len a) \<ge> start + length'")
    case True
    have "(\<exists>i<length (a # l). ?P cat_start (a # l) i) \<longleftrightarrow> ?P cat_start (a # l) 0"
    proof
      assume "\<exists>i<length (a # l). ?P cat_start (a # l) i"
      then obtain i where i: "i < length (a # l)" "?P cat_start (a # l) i"
        by blast
      show "?P cat_start (a # l) 0"
      proof (cases i)
        case 0
        with i show ?thesis by simp
      next
        case (Suc j)
        with i have "cat_start + int (len a) + (\<Sum>x\<leftarrow>take j l. int (len x)) \<le> start"
          by (simp add: add.assoc)
        with nonneg [of j] True show ?thesis
          by simp
      qed
    next
      assume "?P cat_start (a # l) 0"
      then show "\<exists>i<length (a # l). ?P cat_start (a # l) i"
        by (intro exI [of _ 0]) simp
    qed
    with True show ?thesis
      by auto
  next
    case False
    have "(\<exists>i<length (a # l). ?P cat_start (a # l) i) \<longleftrightarrow>
        (\<exists>i<length l. ?P (cat_start + int (len a)) l i)"
    proof
      assume "\<exists>i<length (a # l). ?P cat_start (a # l) i"
      then obtain i where i: "i < length (a # l)" "?P cat_start (a # l) i"
        by blast
      show "\<exists>i<length l. ?P (cat_start + int (len a)) l i"
      proof (cases i)
        case 0
        with i False show ?thesis by simp
      next
        case (Suc j)
        with i shift [of j] show ?thesis
          by (intro exI [of _ j]) simp
      qed
    next
      assume "\<exists>i<length l. ?P (cat_start + int (len a)) l i"
      then obtain j where "j < length l" "?P (cat_start + int (len a)) l j"
        by blast
      with shift [of j] show "\<exists>i<length (a # l). ?P cat_start (a # l) i"
        by (intro exI [of _ "Suc j"]) simp
    qed
    moreover from False have "cat_operand len (a # l) cat_start start length' =
        cat_operand len l (cat_start + int (len a)) start length'"
      by auto
    ultimately show ?thesis
      using Cons.IH [of "cat_start + int (len a)"] by (simp only:)
  qed
qed

lemma lower_slice_cat_idem:
  "lower_slice_cat len node start length' = (node', start') \<Longrightarrow>
   lower_slice_cat len node' start' length' = (node', start')"
proof (induction len node start length' rule: lower_slice_cat.induct)
  case (1 len node start length')
  show ?case
  proof (cases node)
    case (Cat l)
    show ?thesis
    proof (cases "cat_operand len l 0 start length'")
      case None
      with Cat 1(2) show ?thesis
        by (auto simp: lower_slice_cat.simps [of len "Cat l"])
    next
      case (Some es)
      with Cat 1(2) have "lower_slice_cat len (fst es) (snd es) length' = (node', start')"
        by (simp add: lower_slice_cat.simps [of len "Cat l"])
      from 1(1) [OF Cat Some this] show ?thesis .
    qed
  qed (use 1(2) in \<open>auto simp: lower_slice_cat.simps\<close>)
qed

lemma div_bounds:
  fixes x w :: int
  assumes "0 < w"
  shows "(x div w) * w \<le> x \<and> x < (x div w + 1) * w"
proof -
  have e: "x div w * w + x mod w = x"
    by (rule div_mult_mod_eq)
  have b: "0 \<le> x mod w" "x mod w < w"
    using assms by simp_all
  have d: "(x div w + 1) * w = x div w * w + w"
    by (simp add: distrib_right)
  from e b show ?thesis
    unfolding d by linarith
qed

lemma div_unique:
  fixes x w k :: int
  assumes "0 < w" "k * w \<le> x" "x < (k + 1) * w"
  shows "x div w = k"
proof (rule int_div_pos_eq [where r = "x - k * w"])
  show "x = w * k + (x - k * w)" by simp
  show "0 \<le> x - k * w" using assms by simp
  show "x - k * w < w" using assms by (simp add: algebra_simps)
qed

lemma same_period_iff:
  fixes start length' w :: int
  assumes "0 < w" and "0 < length'"
  shows "start div w = (start + length' - 1) div w \<longleftrightarrow>
         (\<exists>k. k * w \<le> start \<and> start + length' \<le> (k + 1) * w)"
proof
  assume e: "start div w = (start + length' - 1) div w"
  from div_bounds [OF assms(1), of start] div_bounds [OF assms(1), of "start + length' - 1"] e
  show "\<exists>k. k * w \<le> start \<and> start + length' \<le> (k + 1) * w"
    by (intro exI [of _ "start div w"]) simp
next
  assume "\<exists>k. k * w \<le> start \<and> start + length' \<le> (k + 1) * w"
  then obtain k where k: "k * w \<le> start" "start + length' \<le> (k + 1) * w"
    by blast
  have "start div w = k"
    using assms k by (intro div_unique) simp_all
  moreover have "(start + length' - 1) div w = k"
    using assms k by (intro div_unique) simp_all
  ultimately show "start div w = (start + length' - 1) div w"
    by simp
qed

lemma lower_slices_loop_fixpoint:
  "lower_slices_loop len node start length' = Inr (node', start') \<Longrightarrow>
   lower_slice_cat len node' start' length' = (node', start') \<and>
   lower_slice_replicate len node' start' length' = Inr (node', start')"
proof (induction len node start length' rule: lower_slices_loop.induct)
  case (1 len node start length')
  obtain former_node start1 where c: "lower_slice_cat len node start length' = (former_node, start1)"
    by (cases "lower_slice_cat len node start length'")
  from 1(2) c obtain ns1 where
    r: "lower_slice_replicate len former_node start1 length' = Inr ns1"
    by (cases "lower_slice_replicate len former_node start1 length'")
       (simp_all add: lower_slices_loop.simps [of len node])
  show ?case
  proof (cases "fst ns1 = former_node")
    case True
    with lower_slice_replicate_size [OF r] have n: "ns1 = (former_node, start1)"
      by auto
    with 1(2) c r have "node' = former_node" "start' = start1"
      by (simp_all add: lower_slices_loop.simps [of len node])
    with lower_slice_cat_idem [OF c] r n show ?thesis
      by simp
  next
    case False
    with 1(2) c r have "lower_slices_loop len (fst ns1) (snd ns1) length' = Inr (node', start')"
      by (simp add: lower_slices_loop.simps [of len node])
    from 1(1) [OF c [symmetric] r False this] show ?thesis .
  qed
qed

lemma is_proxy_new_signal: "d \<le> d' \<Longrightarrow> is_proxy d (new_signal d' bs)"
  by (simp add: is_proxy_def new_signal_def)

lemma stmts_slices_on_append:
  "stmts_slices_on Q (xs @ ys) = (stmts_slices_on Q xs \<and> stmts_slices_on Q ys)"
  by (induction xs) auto

lemma signals_of_member: "e \<in> set l \<Longrightarrow> signals_of e \<subseteq> (\<Union>x\<in>set l. signals_of x)"
  by auto

lemma lower_slice_cat_signals:
  "signals_of (fst (lower_slice_cat len node start length')) \<subseteq> signals_of node"
proof (induction len node start length' rule: lower_slice_cat.induct)
  case (1 len node start length')
  show ?case
  proof (cases node)
    case (Cat l)
    show ?thesis
    proof (cases "cat_operand len l 0 start length'")
      case None
      with Cat show ?thesis by (simp add: lower_slice_cat.simps)
    next
      case (Some es)
      from 1 [OF Cat Some] signals_of_member [OF cat_operand_mem [OF Some]] Cat Some
      show ?thesis
        by (auto simp: lower_slice_cat.simps [of len "Cat l"])
    qed
  qed (simp_all add: lower_slice_cat.simps)
qed

lemma lower_slice_replicate_signals:
  "lower_slice_replicate len node start length' = Inr ns \<Longrightarrow> signals_of (fst ns) \<subseteq> signals_of node"
proof (induction len node start length' rule: lower_slice_replicate.induct)
  case (1 len v n start length')
  then show ?case
    by (auto split: if_splits)
qed auto

lemma lower_slices_loop_signals:
  "lower_slices_loop len node start length' = Inr ns \<Longrightarrow> signals_of (fst ns) \<subseteq> signals_of node"
proof (induction len node start length' rule: lower_slices_loop.induct)
  case (1 len node start length')
  obtain former_node start1 where c: "lower_slice_cat len node start length' = (former_node, start1)"
    by (cases "lower_slice_cat len node start length'")
  with lower_slice_cat_signals [of len node start length']
  have fs: "signals_of former_node \<subseteq> signals_of node"
    by simp
  from 1(2) c obtain ns1 where
    r: "lower_slice_replicate len former_node start1 length' = Inr ns1"
    by (cases "lower_slice_replicate len former_node start1 length'")
       (simp_all add: lower_slices_loop.simps [of len node])
  show ?case
  proof (cases "fst ns1 = former_node")
    case True
    with 1(2) c r fs show ?thesis
      by (simp add: lower_slices_loop.simps [of len node])
  next
    case False
    with 1(2) c r have "lower_slices_loop len (fst ns1) (snd ns1) length' = Inr ns"
      by (simp add: lower_slices_loop.simps [of len node])
    from 1(1) [OF c [symmetric] r False this] lower_slice_replicate_signals [OF r] fs
    show ?thesis
      by blast
  qed
qed

lemma strip_slices_signals:
  "strip_slices len node start length' = Inr ns \<Longrightarrow> signals_of (fst ns) \<subseteq> signals_of node"
proof (induction len node start length' rule: strip_slices.induct)
  case (1 len node start length')
  show ?case
  proof (cases node)
    case (Slice v a b)
    with 1(2) obtain ns1 where l: "lower_slices_loop len v (start + a) length' = Inr ns1"
      and s: "strip_slices len (fst ns1) (snd ns1) length' = Inr ns"
      by (cases "lower_slices_loop len v (start + a) length'")
         (simp_all add: strip_slices.simps [of len "Slice v a b"])
    from 1(1) [OF Slice l s] lower_slices_loop_signals [OF l] Slice show ?thesis
      by auto
  qed (use 1(2) in \<open>auto simp: strip_slices.simps\<close>)
qed

lemma slices_on_Slice_Signal: "is_Signal v \<Longrightarrow> \<forall>s\<in>signals_of v. Q s \<Longrightarrow> slices_on Q (Slice v a b)"
  by (cases v) simp_all

lemma lowerer_ok_target_context [simp]:
  "lowerer_ok Q d (st\<lparr>target_context := tc\<rparr>) = lowerer_ok Q d st"
  by (simp add: lowerer_ok_def)

lemma collect_snoc_Inr:
  "collect (ps @ [Inr z]) = (case collect ps of Inl e \<Rightarrow> Inl e | Inr a \<Rightarrow> Inr (a @ z))"
  by (simp add: collect_append split: sum.splits)

lemma build_verilog_body:
  "build_verilog hp cfg f ls ios =
     (case build_body hp cfg f ls ios of
        Inl e \<Rightarrow> Inl e
      | Inr m \<Rightarrow> Inr (generate_banner (c_name cfg) (c_device cfg) (c_revision cfg) (c_banner_date cfg) @
                  m @ generate_trailer (c_trailer_date cfg)))"
proof -
  let ?sets = "signal_sets_of hp f"
  let ?sv = "namespace_services hp (List.union (sigs ?sets) ios) ieee_1800_2017_verilog_reserved_keywords"
  define M where "M = [Inr (generate_timescale (c_time_unit cfg) (c_time_precision cfg)),
         Inr (generate_separator ''Module''),
         Inr (generate_module ?sv (c_attr_translate cfg) (migen_group_by_targets hp) ?sets
                (f_comb f) ios (c_name cfg)),
         Inr (generate_separator ''Hierarchy''),
         Inr (generate_hierarchy (c_hierarchy cfg)),
         Inr (generate_separator ''Signals''),
         Inr (generate_signals ?sv (c_attr_translate cfg) (migen_group_by_targets hp) ?sets
                (f_comb f) ios (c_regs_init cfg)),
         Inr (generate_separator ''Combinatorial Logic''),
         (if c_regular_comb cfg
          then generate_combinatorial_logic_synth ?sv (migen_group_by_targets hp) (f_comb f)
          else generate_combinatorial_logic_sim ?sv (migen_flat_iteration hp) (f_comb f)),
         Inr (generate_separator ''Synchronous Logic''),
         generate_synchronous_logic ?sv (f_clock_domains f) (f_sync f),
         Inr (generate_separator ''Specialized Logic''),
         generate_specials (c_attr_translate cfg) (c_special_emitters cfg)
           (filter (\<lambda>s. sp_duid s \<notin> sp_duid ` set ls) (f_specials f)),
         Inr ''endmodule\<newline>'']"
  have b: "build_body hp cfg f ls ios = collect M"
    by (simp only: build_body_def Let_def M_def)
  have "build_verilog hp cfg f ls ios =
      collect (Inr (generate_banner (c_name cfg) (c_device cfg) (c_revision cfg) (c_banner_date cfg)) #
        (M @ [Inr (generate_trailer (c_trailer_date cfg))]))"
    by (simp only: build_verilog_def Let_def M_def append.simps)
  also have "\<dots> = (case collect M of
        Inl e \<Rightarrow> Inl e
      | Inr m \<Rightarrow> Inr (generate_banner (c_name cfg) (c_device cfg) (c_revision cfg) (c_banner_date cfg) @
                  m @ generate_trailer (c_trailer_date cfg)))"
    by (simp only: collect.simps collect_snoc_Inr split: sum.splits) simp
  finally show ?thesis
    by (simp only: b)
qed

lemma build_body_dates [simp]:
  "build_body hp (cfg\<lparr>c_banner_date := d, c_trailer_date := t\<rparr>) f ls ios = build_body hp cfg f ls ios"
  by (simp add: build_body_def)

lemma lower_fragment_dates [simp]:
  "lower_fragment hp (cfg\<lparr>c_banner_date := d, c_trailer_date := t\<rparr>) f = lower_fragment hp cfg f"
  by (simp add: lower_fragment_def)

lemma split_base: "\<exists>a b. \<forall>d. d @ y = a @ d @ b"
  by (rule exI [of _ "[]"]) simp

lemma split_step:
  assumes "\<exists>a b. \<forall>d. g d = a @ d @ b"
  shows "\<exists>a b. \<forall>d. x @ g d = a @ d @ b"
proof -
  from assms obtain a b where "\<forall>d. g d = a @ d @ b"
    by blast
  then have "\<forall>d. x @ g d = (x @ a) @ d @ b"
    by simp
  then show ?thesis
    by blast
qed

lemma generate_banner_split:
  "\<exists>a b. \<forall>d. generate_banner filename device revision d = a @ d @ b"
  unfolding generate_banner_def by (intro split_step split_base)

lemma generate_trailer_split: "\<exists>a b. \<forall>d. generate_trailer d = a @ d @ b"
  unfolding generate_trailer_def by (intro split_step split_base)

lemma lower_slice_cat_narrows:
  "(narrows len length')\<^sup>*\<^sup>* (node, start) (lower_slice_cat len node start length')"
proof (induction len node start length' rule: lower_slice_cat.induct)
  case (1 len node start length')
  show ?case
  proof (cases node)
    case (Cat l)
    show ?thesis
    proof (cases "cat_operand len l 0 start length'")
      case None
      with Cat show ?thesis by (simp add: lower_slice_cat.simps)
    next
      case (Some es)
      have "narrows len length' (node, start) (fst es, snd es)"
        using Cat Some by (simp add: narrows_def)
      with 1 [OF Cat Some] Cat Some show ?thesis
        by (simp add: lower_slice_cat.simps [of len "Cat l"] converse_rtranclp_into_rtranclp)
    qed
  qed (simp_all add: lower_slice_cat.simps)
qed

lemma lower_slice_replicate_narrows:
  "lower_slice_replicate len node start length' = Inr ns \<Longrightarrow>
   (narrows len length')\<^sup>*\<^sup>* (node, start) ns"
proof (induction len node start length' rule: lower_slice_replicate.induct)
  case (1 len v n start length')
  show ?case
  proof (cases "start div int (len v) = (start + length' - 1) div int (len v)")
    case True
    from 1(2) have p: "0 < len v"
      by (auto split: if_splits)
    with True have "narrows len length' (Replicate v n, start) (v, start mod int (len v))"
      by (simp add: narrows_def)
    moreover from 1(2) p True
    have "lower_slice_replicate len v (start mod int (len v)) length' = Inr ns"
      by simp
    with 1(1) p True have "(narrows len length')\<^sup>*\<^sup>* (v, start mod int (len v)) ns"
      by simp
    ultimately show ?thesis
      by (rule converse_rtranclp_into_rtranclp)
  next
    case False
    with 1(2) show ?thesis
      by (auto split: if_splits)
  qed
qed simp_all

lemma lower_slice_replicate_Inl:
  "lower_slice_replicate len node start length' = Inl e \<Longrightarrow>
   e = ZeroDivisionError \<and>
   (\<exists>v n s. (narrows len length')\<^sup>*\<^sup>* (node, start) (Replicate v n, s) \<and> len v = 0)"
proof (induction len node start length' rule: lower_slice_replicate.induct)
  case (1 len v n start length')
  show ?case
  proof (cases "len v = 0")
    case True
    with 1(2) show ?thesis
      by auto
  next
    case False
    with 1(2) have sp: "start div int (len v) = (start + length' - 1) div int (len v)"
      and r: "lower_slice_replicate len v (start mod int (len v)) length' = Inl e"
      by (auto split: if_splits)
    from False sp have "narrows len length' (Replicate v n, start) (v, start mod int (len v))"
      by (simp add: narrows_def)
    with 1(1) [OF False sp r] show ?thesis
      by (blast intro: converse_rtranclp_into_rtranclp)
  qed
qed simp_all

lemma lower_slices_loop_narrows:
  "lower_slices_loop len node start length' = Inr ns \<Longrightarrow>
   (narrows len length')\<^sup>*\<^sup>* (node, start) ns"
proof (induction len node start length' rule: lower_slices_loop.induct)
  case (1 len node start length')
  obtain former_node start1 where c: "lower_slice_cat len node start length' = (former_node, start1)"
    by (cases "lower_slice_cat len node start length'")
  with lower_slice_cat_narrows [of len length' node start]
  have s1: "(narrows len length')\<^sup>*\<^sup>* (node, start) (former_node, start1)"
    by simp
  from 1(2) c obtain ns1 where
    r: "lower_slice_replicate len former_node start1 length' = Inr ns1"
    by (cases "lower_slice_replicate len former_node start1 length'")
       (simp_all add: lower_slices_loop.simps [of len node])
  from lower_slice_replicate_narrows [OF r] s1
  have s2: "(narrows len length')\<^sup>*\<^sup>* (node, start) ns1"
    by simp
  show ?case
  proof (cases "fst ns1 = former_node")
    case True
    with 1(2) c r s2 show ?thesis
      by (simp add: lower_slices_loop.simps [of len node])
  next
    case False
    with 1(2) c r have l: "lower_slices_loop len (fst ns1) (snd ns1) length' = Inr ns"
      by (simp add: lower_slices_loop.simps [of len node])
    from 1(1) [OF c [symmetric] r False l] s2 show ?thesis
      by simp
  qed
qed

lemma lower_slices_loop_Inl:
  "lower_slices_loop len node start length' = Inl e \<Longrightarrow>
   e = ZeroDivisionError \<and>
   (\<exists>v n s. (narrows len length')\<^sup>*\<^sup>* (node, start) (Replicate v n, s) \<and> len v = 0)"
proof (induction len node start length' rule: lower_slices_loop.induct)
  case (1 len node start length')
  obtain former_node start1 where c: "lower_slice_cat len node start length' = (former_node, start1)"
    by (cases "lower_slice_cat len node start length'")
  with lower_slice_cat_narrows [of len length' node start]
  have s1: "(narrows len length')\<^sup>*\<^sup>* (node, start) (former_node, start1)"
    by simp
  show ?case
  proof (cases "lower_slice_replicate len former_node start1 length'")
    case (Inl e')
    with 1(2) c have "e' = e"
      by (simp add: lower_slices_loop.simps [of len node])
    with lower_slice_replicate_Inl [OF Inl] s1 show ?thesis
      by (meson rtranclp_trans)
  next
    case (Inr ns1)
    from lower_slice_replicate_narrows [OF Inr] s1
    have s2: "(narrows len length')\<^sup>*\<^sup>* (node, start) (fst ns1, snd ns1)"
      by simp
    from 1(2) c Inr have nf: "fst ns1 \<noteq> former_node"
      and l: "lower_slices_loop len (fst ns1) (snd ns1) length' = Inl e"
      by (auto simp: lower_slices_loop.simps [of len node] split: if_splits)
    from 1(1) [OF c [symmetric] Inr nf l] s2 show ?thesis
      by (meson rtranclp_trans)
  qed
qed

lemma narrow_step_None:
  assumes c: "lower_slice_cat len node start length' = (node, start)"
    and r: "lower_slice_replicate len node start length' = Inr (node, start)"
  shows "narrow_step len length' (node, start) = None"
proof (cases node)
  case (Cat l)
  show ?thesis
  proof (cases "cat_operand len l 0 start length'")
    case None
    with Cat show ?thesis by simp
  next
    case (Some es)
    with c Cat have "lower_slice_cat len (fst es) (snd es) length' = (Cat l, start)"
      by (simp add: lower_slice_cat.simps [of len "Cat l"])
    with lower_slice_cat_size [of len "fst es" "snd es" length']
    have "size (Cat l) \<le> size (fst es)"
      by simp
    with size_expr_member [OF cat_operand_mem [OF Some]] show ?thesis
      by simp
  qed
next
  case (Replicate v n)
  show ?thesis
  proof (cases "0 < len v \<and> start div int (len v) = (start + length' - 1) div int (len v)")
    case True
    with r Replicate
    have "lower_slice_replicate len v (start mod int (len v)) length' = Inr (Replicate v n, start)"
      by simp
    from lower_slice_replicate_size [OF this] show ?thesis
      by auto
  next
    case False
    with Replicate show ?thesis by auto
  qed
qed simp_all

lemma narrows_normal_form_unique:
  assumes "(narrows len length')\<^sup>*\<^sup>* x y" and "narrow_step len length' y = None"
    and "(narrows len length')\<^sup>*\<^sup>* x z" and "narrow_step len length' z = None"
  shows "y = z"
  using assms
proof (induction rule: converse_rtranclp_induct)
  case base
  from base(2) show ?case
  proof (cases rule: converse_rtranclpE)
    case base
    then show ?thesis by simp
  next
    case (step w)
    with base(1) show ?thesis
      by (simp add: narrows_def)
  qed
next
  case outer: (step x w)
  from outer.prems(2) show ?case
  proof (cases rule: converse_rtranclpE)
    case base
    with outer.hyps(1) outer.prems(3) show ?thesis
      by (simp add: narrows_def)
  next
    case inner: (step w')
    from inner(1) outer.hyps(1) have "w' = w"
      by (simp add: narrows_def)
    with inner(2) have "(narrows len length')\<^sup>*\<^sup>* w z"
      by simp
    from outer.IH [OF outer.prems(1) this outer.prems(3)] show ?thesis .
  qed
qed

subsection \<open>C10: the branches of a Case\<close>

text \<open>
  C10. When a Case node is printed, its constant-keyed branches appear sorted by ascending
  constant value, with the default branch last; the text does not depend on the order in
  which the branches were put into the dictionary (a dictionary has each key once, and
  constants are keys by value); a Case with no branches prints nothing.
\<close>

theorem generate_node_Case_order:
  "generate_node sv at level None (Case test []) = Inr [] \<and>
   sorted (map key_value (css cases)) \<and>
   (cases \<noteq> [] \<longrightarrow>
      generate_node sv at level None (Case test cases) =
      collect
        ([Inr (indent level @ ''case ('' @ gen_expr sv test @ '')\<newline>'')] @
         concat (map (\<lambda>choice.
            [Inr (indent (level + 1) @ gen_expr sv (key_expr (fst choice)) @ '': begin\<newline>''),
             generate_nodes sv at (level + 2) None (snd choice),
             Inr (indent (level + 1) @ ''end\<newline>'')]) (css cases)) @
         (case map_of cases KDefault of
            None \<Rightarrow> []
          | Some statements \<Rightarrow>
            [Inr (indent (level + 1) @ ''default: begin\<newline>''),
             generate_nodes sv at (level + 2) None statements,
             Inr (indent (level + 1) @ ''end\<newline>'')]) @
         [Inr (indent level @ ''endcase\<newline>'')])) \<and>
   (distinct (map fst cases) \<and> distinct (map key_value (filter is_KConstant cases)) \<and>
    mset cases' = mset cases \<longrightarrow>
      generate_node sv at level None (Case test cases') =
      generate_node sv at level None (Case test cases))"
proof (intro conjI impI)
  show "generate_node sv at level None (Case test []) = Inr []"
    by simp
  show "sorted (map key_value (css cases))"
    by (rule css_sorted)
next
  assume "cases \<noteq> []"
  then show "generate_node sv at level None (Case test cases) =
      collect
        ([Inr (indent level @ ''case ('' @ gen_expr sv test @ '')\<newline>'')] @
         concat (map (\<lambda>choice.
            [Inr (indent (level + 1) @ gen_expr sv (key_expr (fst choice)) @ '': begin\<newline>''),
             generate_nodes sv at (level + 2) None (snd choice),
             Inr (indent (level + 1) @ ''end\<newline>'')]) (css cases)) @
         (case map_of cases KDefault of
            None \<Rightarrow> []
          | Some statements \<Rightarrow>
            [Inr (indent (level + 1) @ ''default: begin\<newline>''),
             generate_nodes sv at (level + 2) None statements,
             Inr (indent (level + 1) @ ''end\<newline>'')]) @
         [Inr (indent level @ ''endcase\<newline>'')])"
    unfolding generate_nodes_def
    by (subst generate_node.simps) (simp only: not_filtered_None if_False if_True simp_thms)
next
  assume a: "distinct (map fst cases) \<and> distinct (map key_value (filter is_KConstant cases)) \<and>
    mset cases' = mset cases"
  then have c: "css cases' = css cases" and m: "map_of cases' = map_of cases"
    by (simp_all add: css_perm map_of_perm)
  from a have "(cases' = []) = (cases = [])"
    by (metis mset_zero_iff)
  with c m show "generate_node sv at level None (Case test cases') =
      generate_node sv at level None (Case test cases)"
    by simp
qed

text \<open>The theorem at a dictionary of three branches, filled in two orders.\<close>

theorem generate_node_Case_order_witness:
  "generate_node example_services SIGNAL 0 None
     (Case (Signal (sig 0 ''s''))
        [(KConstant (const 2), [Finish]), (KDefault, [Finish]), (KConstant (const 1), [])]) =
   generate_node example_services SIGNAL 0 None
     (Case (Signal (sig 0 ''s''))
        [(KConstant (const 1), []), (KConstant (const 2), [Finish]), (KDefault, [Finish])]) \<and>
   generate_node example_services SIGNAL 0 None
     (Case (Signal (sig 0 ''s''))
        [(KConstant (const 2), [Finish]), (KDefault, [Finish]), (KConstant (const 1), [])]) =
   Inr (''case (s)\<newline>    1: begin\<newline>    end\<newline>    2: begin\<newline>'' @
        ''        $finish;\<newline>    end\<newline>    default: begin\<newline>'' @
        ''        $finish;\<newline>    end\<newline>endcase\<newline>'')"
proof
  show "generate_node example_services SIGNAL 0 None
     (Case (Signal (sig 0 ''s''))
        [(KConstant (const 2), [Finish]), (KDefault, [Finish]), (KConstant (const 1), [])]) =
   generate_node example_services SIGNAL 0 None
     (Case (Signal (sig 0 ''s''))
        [(KConstant (const 1), []), (KConstant (const 2), [Finish]), (KDefault, [Finish])])"
    using generate_node_Case_order
      [of example_services SIGNAL 0 "Signal (sig 0 ''s'')"
          "[(KConstant (const 1), []), (KConstant (const 2), [Finish]), (KDefault, [Finish])]"
          "[(KConstant (const 2), [Finish]), (KDefault, [Finish]), (KConstant (const 1), [])]"]
    by (simp add: const_def)
  show "generate_node example_services SIGNAL 0 None
     (Case (Signal (sig 0 ''s''))
        [(KConstant (const 2), [Finish]), (KDefault, [Finish]), (KConstant (const 1), [])]) =
   Inr (''case (s)\<newline>    1: begin\<newline>    end\<newline>    2: begin\<newline>'' @
        ''        $finish;\<newline>    end\<newline>    default: begin\<newline>'' @
        ''        $finish;\<newline>    end\<newline>endcase\<newline>'')"
    by code_simp
qed

subsection \<open>C1: direct form or procedural block\<close>

text \<open>
  C1. A group of the combinatorial statements is printed in direct form (\<^verbatim>\<open>assign\<close>) iff
  it has exactly one statement, that statement is an assignment and its left-hand side is
  not a slice. Every other group is printed as one \<^verbatim>\<open>always @(*)\<close> block: first each
  target of the group, in order of name, is assigned its reset value, then the statements
  of the group follow, every assignment among them printed with \<^verbatim>\<open><=\<close> (the text is
  the one the per-target rule gives when no target is a variable). The section is the
  groups' texts in the order of the grouping, and a newline.
\<close>

theorem comb_direct_or_procedural:
  "(use_wire stmts \<longleftrightarrow> (\<exists>l r. stmts = [Assign l r] \<and> \<not> is_Slice l)) \<and>
   (\<not> is_Slice l \<longrightarrow>
      comb_group_synth sv (ts, [Assign l r]) =
      Inr (''assign '' @ gen_expr sv l @ '' = '' @ gen_expr sv r @ '';\<newline>'')) \<and>
   (\<not> use_wire stmts \<longrightarrow>
      comb_group_synth sv (ts, stmts) =
      collect
        ([Inr ''always @(*) begin\<newline>''] @
         map (\<lambda>t. Inr (tab @ get_name sv t @ '' <= '' @ gen_expr sv (Constant (reset t)) @ '';\<newline>''))
           (sort_key (get_name sv) ts) @
         [generate_nodes (sv\<lparr>is_variable := \<lambda>l. False\<rparr>) SIGNAL 1 None stmts,
          Inr ''end\<newline>''])) \<and>
   (comb \<noteq> [] \<and> (\<forall>g\<in>set (group_by_targets comb). \<exists>s. comb_group_synth sv g = Inr s) \<longrightarrow>
      generate_combinatorial_logic_synth sv group_by_targets comb =
      Inr (concat (map (\<lambda>g. projr (comb_group_synth sv g)) (group_by_targets comb)) @ ''\<newline>''))"
proof (intro conjI impI)
  show "use_wire stmts \<longleftrightarrow> (\<exists>l r. stmts = [Assign l r] \<and> \<not> is_Slice l)"
    by (rule use_wire_iff)
next
  assume "\<not> is_Slice l"
  then have "use_wire [Assign l r]"
    by (simp add: use_wire_def)
  then show "comb_group_synth sv (ts, [Assign l r]) =
      Inr (''assign '' @ gen_expr sv l @ '' = '' @ gen_expr sv r @ '';\<newline>'')"
    by (simp add: comb_group_synth_def indent_def)
next
  assume "\<not> use_wire stmts"
  moreover have "generate_nodes sv NON_BLOCKING 1 None stmts =
      generate_nodes (sv\<lparr>is_variable := \<lambda>l. False\<rparr>) SIGNAL 1 None stmts"
    unfolding generate_nodes_def
    by (intro iterable_is_variable) (rule nonblocking_as_signal)
  ultimately show "comb_group_synth sv (ts, stmts) =
      collect
        ([Inr ''always @(*) begin\<newline>''] @
         map (\<lambda>t. Inr (tab @ get_name sv t @ '' <= '' @ gen_expr sv (Constant (reset t)) @ '';\<newline>''))
           (sort_key (get_name sv) ts) @
         [generate_nodes (sv\<lparr>is_variable := \<lambda>l. False\<rparr>) SIGNAL 1 None stmts,
          Inr ''end\<newline>''])"
    by (simp add: comb_group_synth_def reset_line_def del: collect.simps)
next
  assume a: "comb \<noteq> [] \<and> (\<forall>g\<in>set (group_by_targets comb). \<exists>s. comb_group_synth sv g = Inr s)"
  then have "collect (map (comb_group_synth sv) (group_by_targets comb)) =
      Inr (concat (map projr (map (comb_group_synth sv) (group_by_targets comb))))"
    by (intro collect_all_Inr) auto
  with a show "generate_combinatorial_logic_synth sv group_by_targets comb =
      Inr (concat (map (\<lambda>g. projr (comb_group_synth sv g)) (group_by_targets comb)) @ ''\<newline>'')"
    by (simp add: generate_combinatorial_logic_synth_def collect_append comp_def)
qed

text \<open>The theorem at a fragment with one direct assignment and one conditional one.\<close>

theorem comb_direct_or_procedural_witness:
  "use_wire [Assign (Signal (sig 8 ''x'')) (Operator ''a & b'' [])] \<and>
   \<not> use_wire [If (Signal (sig 2 ''sel'')) [Assign (Signal (sig 3 ''y'')) (Constant (const 1))] []] \<and>
   generate_combinatorial_logic_synth example_services example_groups example_comb =
   Inr (''assign x = a & b;\<newline>'' @
        ''always @(*) begin\<newline>    y <= 0;\<newline>    if (sel) begin\<newline>'' @
        ''        y <= 1;\<newline>    end\<newline>end\<newline>\<newline>'')"
proof -
  let ?a = "Assign (Signal (sig 8 ''x'')) (Operator ''a & b'' [])"
  let ?i = "If (Signal (sig 2 ''sel'')) [Assign (Signal (sig 3 ''y'')) (Constant (const 1))] []"
  have g: "example_groups example_comb = [([sig 8 ''x''], [?a]), ([sig 3 ''y''], [?i])]"
    by (simp add: example_groups_def example_comb_def)
  have a: "comb_group_synth example_services ([sig 8 ''x''], [?a]) = Inr ''assign x = a & b;\<newline>''"
    by code_simp
  have i: "comb_group_synth example_services ([sig 3 ''y''], [?i]) =
      Inr (''always @(*) begin\<newline>    y <= 0;\<newline>    if (sel) begin\<newline>'' @
           ''        y <= 1;\<newline>    end\<newline>end\<newline>'')"
    by code_simp
  have ne: "example_comb \<noteq> []"
    by (simp add: example_comb_def)
  from comb_direct_or_procedural
    [where stmts = "[?a]" and sv = example_services and comb = example_comb
       and group_by_targets = example_groups and l = "Signal (sig 8 ''x'')"]
  have u: "use_wire [?a]"
    and t: "generate_combinatorial_logic_synth example_services example_groups example_comb =
      Inr (concat (map (\<lambda>g. projr (comb_group_synth example_services g))
        (example_groups example_comb)) @ ''\<newline>'')"
    using g a i ne by simp_all
  have n: "\<not> use_wire [?i]"
    by (simp add: use_wire_def)
  from u n t show ?thesis
    by (simp add: g a i)
qed

subsection \<open>C8: an unresolved clock domain\<close>

text \<open>
  C8. If a clock-domain name that the fragment refers to (a name of
  \<^verbatim>\<open>list_clock_domains(f)\<close>) has no descriptor in \<^verbatim>\<open>f.clock_domains\<close>, the conversion
  ends in an exception whose message names the least such name and lists the names of
  the descriptors there are. The check stands before the lowering passes: the result is
  the same whatever the passes, the namespace builder and the emitters are, and no text
  is returned.
\<close>

theorem convert_unresolved_clock_domain:
  assumes "\<exists>name\<in>set (migen_list_clock_domains hp f). name \<notin> cd_name ` set (f_clock_domains f)"
  shows "\<exists>name\<in>set (migen_list_clock_domains hp f).
           name \<notin> cd_name ` set (f_clock_domains f) \<and>
           (\<forall>n\<in>set (migen_list_clock_domains hp f).
              n \<notin> cd_name ` set (f_clock_domains f) \<longrightarrow> name \<le> n) \<and>
           convert hp cfg f =
           Inl (Exception
             (''Unresolved clock domain '' @ name @ '', availables:\<newline>'' @
              concat (map (\<lambda>d. ''- '' @ cd_name d @ ''\<newline>'') (f_clock_domains f))))"
proof -
  from assms have "\<exists>name\<in>set (sort (migen_list_clock_domains hp f)).
      name \<notin> cd_name ` set (f_clock_domains f)"
    by simp
  from verify_clock_domains_unresolved [OF this]
  obtain name where "name \<in> set (migen_list_clock_domains hp f)"
    "name \<notin> cd_name ` set (f_clock_domains f)"
    "\<forall>n\<in>set (migen_list_clock_domains hp f). n \<notin> cd_name ` set (f_clock_domains f) \<longrightarrow> name \<le> n"
    "verify_clock_domains (f_clock_domains f) (sort (migen_list_clock_domains hp f)) =
       Inl (Exception (unresolved_message (f_clock_domains f) name))"
    by auto
  then show ?thesis
    by (intro bexI [of _ name]) (simp_all add: convert_def unresolved_message_def)
qed

text \<open>The theorem at a fragment with the domains video and sys and a descriptor for sys only.\<close>

theorem convert_unresolved_clock_domain_witness:
  "convert example_helpers example_config example_unresolved =
   Inl (Exception ''Unresolved clock domain video, availables:\<newline>- sys\<newline>'')"
proof -
  have l: "migen_list_clock_domains example_helpers example_unresolved = [''video'', ''sys'']"
    by (simp add: example_helpers_def example_unresolved_def)
  have c: "cd_name ` set (f_clock_domains example_unresolved) = {''sys''}"
    by (simp add: example_unresolved_def)
  have "\<exists>name\<in>set (migen_list_clock_domains example_helpers example_unresolved).
      name \<notin> cd_name ` set (f_clock_domains example_unresolved)"
    unfolding l c by simp
  from convert_unresolved_clock_domain [OF this, of example_config]
  show ?thesis
    unfolding l c by (simp add: example_unresolved_def)
qed

subsection \<open>C3: reserved keywords\<close>

text \<open>
  C3 says that no identifier of the namespace equals a reserved keyword of Verilog, and
  names \<^verbatim>\<open>repeat\<close>, \<^verbatim>\<open>union\<close> and \<^verbatim>\<open>uwire\<close>. The keyword set that \<^verbatim>\<open>convert\<close> hands to
  the builder does not hold these three words: its entries are the words with blanks in
  front. A builder that rewrites every name it finds in the set it is given therefore
  rewrites \<^verbatim>\<open>module\<close> and lets \<^verbatim>\<open>repeat\<close> through.
\<close>

theorem reserved_keywords_miss_repeat:
  "''repeat'' \<notin> set ieee_1800_2017_verilog_reserved_keywords \<and>
   ''union'' \<notin> set ieee_1800_2017_verilog_reserved_keywords \<and>
   ''uwire'' \<notin> set ieee_1800_2017_verilog_reserved_keywords \<and>
   ''      repeat'' \<in> set ieee_1800_2017_verilog_reserved_keywords \<and>
   ''       union'' \<in> set ieee_1800_2017_verilog_reserved_keywords \<and>
   ''   uwire'' \<in> set ieee_1800_2017_verilog_reserved_keywords \<and>
   build_signal_namespace [sig 30 ''repeat'', sig 31 ''module'']
     ieee_1800_2017_verilog_reserved_keywords =
   [(sig 30 ''repeat'', ''repeat''), (sig 31 ''module'', ''module_1'')]"
  by code_simp

subsection \<open>C9: two runs of the conversion\<close>

text \<open>
  Claim C9. What differs between two runs of \<^verbatim>\<open>convert\<close> on the same fragment and
  configuration are the two readings of the clock, in the banner and in the trailer. For
  all readings \<open>d\<close> and \<open>t\<close> the conversion raises one and the same error, or it returns
  \<open>pre @ d @ mid @ t @ post\<close> with the same three texts \<open>pre\<close>, \<open>mid\<close> and \<open>post\<close>: two
  outputs agree byte for byte outside the two time stamps.
\<close>

theorem convert_twice:
  "(\<exists>e. \<forall>d t. convert hp (cfg\<lparr>c_banner_date := d, c_trailer_date := t\<rparr>) f = Inl e) \<or>
   (\<exists>pre mid post. \<forall>d t.
      convert hp (cfg\<lparr>c_banner_date := d, c_trailer_date := t\<rparr>) f = Inr (pre @ d @ mid @ t @ post))"
proof -
  let ?cfg = "\<lambda>d t. cfg\<lparr>c_banner_date := d, c_trailer_date := t\<rparr>"
  have bv: "(\<exists>e. \<forall>d t. build_verilog hp (?cfg d t) g ls ios = Inl e) \<or>
     (\<exists>pre mid post. \<forall>d t. build_verilog hp (?cfg d t) g ls ios = Inr (pre @ d @ mid @ t @ post))"
    for g ls ios
  proof (cases "build_body hp cfg g ls ios")
    case (Inl e)
    then show ?thesis
      by (simp add: build_verilog_body)
  next
    case (Inr m)
    from generate_banner_split [of "c_name cfg" "c_device cfg" "c_revision cfg"]
    obtain a b where
      B: "\<And>d. generate_banner (c_name cfg) (c_device cfg) (c_revision cfg) d = a @ d @ b"
      by blast
    from generate_trailer_split obtain c e where T: "\<And>t. generate_trailer t = c @ t @ e"
      by blast
    have "\<forall>d t. build_verilog hp (?cfg d t) g ls ios = Inr (a @ d @ (b @ m @ c) @ t @ e)"
      by (simp add: build_verilog_body Inr B T)
    then have "\<exists>pre mid post. \<forall>d t.
        build_verilog hp (?cfg d t) g ls ios = Inr (pre @ d @ mid @ t @ post)"
      by blast
    then show ?thesis ..
  qed
  show ?thesis
  proof (cases "verify_clock_domains (f_clock_domains f) (sort (migen_list_clock_domains hp f))")
    case (Inl e)
    then show ?thesis
      by (simp add: convert_def)
  next
    case v: (Inr u)
    show ?thesis
    proof (cases "lower_fragment hp cfg f")
      case (Inl e)
      with v show ?thesis
        by (simp add: convert_def)
    next
      case (Inr fl)
      show ?thesis
      proof (cases "c_ios cfg = []")
        case True
        show ?thesis
        proof (cases "c_platform_ios cfg")
          case None
          with v Inr True show ?thesis
            by (simp add: convert_def)
        next
          case (Some ios)
          with v Inr True bv [of "fst fl" "snd fl" ios] show ?thesis
            by (simp add: convert_def)
        qed
      next
        case False
        with v Inr bv [of "fst fl" "snd fl" "c_ios cfg"] show ?thesis
          by (simp add: convert_def)
      qed
    qed
  qed
qed

text \<open>
  The theorem at a design with combinatorial and synchronous statements and two specials:
  the conversion returns a text for every pair of readings.
\<close>

theorem convert_twice_witness:
  "\<exists>pre mid post. \<forall>d t.
     convert example_helpers (example_config\<lparr>c_banner_date := d, c_trailer_date := t\<rparr>) example_design =
       Inr (pre @ d @ mid @ t @ post)"
proof -
  have "\<not> isl (convert example_helpers
      (example_config\<lparr>c_banner_date := [], c_trailer_date := []\<rparr>) example_design)"
    by code_simp
  with convert_twice [of example_helpers example_config example_design] show ?thesis
    by (metis sum.disc(1))
qed

subsection \<open>C7: narrowing a slice\<close>

text \<open>
  Claim C7. For a slice of positive length: the loop over the operands of a concatenation
  narrows the slice to an operand, with the start counted from the operand's first bit,
  exactly when the slice lies within the bits of that operand (and then goes on inside
  the operand); a slice of a replication of an operand of positive width is narrowed to
  the operand, with the start reduced modulo the operand's width, exactly when the slice
  lies within one period of the replication. The loop that alternates the two returns, or
  raises \<open>ZeroDivisionError\<close> at a replication of an operand of width 0 that the narrowing
  reaches. What it returns comes from its argument by a sequence of these narrowing steps,
  is changed by neither of the two functions, admits no further step, and is the only
  such node and start.
\<close>

theorem slice_narrowing:
  "(0 < length' \<longrightarrow>
      (cat_operand len l 0 start length' = Some (e, s) \<longleftrightarrow>
       (\<exists>i<length l. e = l ! i \<and>
          s = start - (\<Sum>x\<leftarrow>take i l. int (len x)) \<and>
          (\<Sum>x\<leftarrow>take i l. int (len x)) \<le> start \<and>
          start + length' \<le> (\<Sum>x\<leftarrow>take i l. int (len x)) + int (len (l ! i))))) \<and>
   lower_slice_cat len (Cat l) start length' =
     (case cat_operand len l 0 start length' of
        Some es \<Rightarrow> lower_slice_cat len (fst es) (snd es) length'
      | None \<Rightarrow> (Cat l, start)) \<and>
   (0 < len v \<and> 0 < length' \<longrightarrow>
      lower_slice_replicate len (Replicate v n) start length' =
        (if \<exists>k. k * int (len v) \<le> start \<and> start + length' \<le> (k + 1) * int (len v)
         then lower_slice_replicate len v (start mod int (len v)) length'
         else Inr (Replicate v n, start))) \<and>
   (lower_slices_loop len node start length' = Inr (node', start') \<longrightarrow>
      lower_slice_cat len node' start' length' = (node', start') \<and>
      lower_slice_replicate len node' start' length' = Inr (node', start') \<and>
      (narrows len length')\<^sup>*\<^sup>* (node, start) (node', start') \<and>
      narrow_step len length' (node', start') = None \<and>
      (\<forall>y. (narrows len length')\<^sup>*\<^sup>* (node, start) y \<and> narrow_step len length' y = None \<longrightarrow>
           y = (node', start'))) \<and>
   ((\<exists>ns. lower_slices_loop len node start length' = Inr ns) \<or>
    lower_slices_loop len node start length' = Inl ZeroDivisionError \<and>
    (\<exists>w k s. (narrows len length')\<^sup>*\<^sup>* (node, start) (Replicate w k, s) \<and> len w = 0)) \<and>
   (0 < length' \<longrightarrow>
      (narrows len length' (Cat l, start) (e, s) \<longleftrightarrow>
       (\<exists>i<length l. e = l ! i \<and>
          s = start - (\<Sum>x\<leftarrow>take i l. int (len x)) \<and>
          (\<Sum>x\<leftarrow>take i l. int (len x)) \<le> start \<and>
          start + length' \<le> (\<Sum>x\<leftarrow>take i l. int (len x)) + int (len (l ! i))))) \<and>
   (0 < len v \<and> 0 < length' \<longrightarrow>
      (narrows len length' (Replicate v n, start) (e, s) \<longleftrightarrow>
       e = v \<and> s = start mod int (len v) \<and>
       (\<exists>k. k * int (len v) \<le> start \<and> start + length' \<le> (k + 1) * int (len v))))"
proof (intro conjI impI)
  assume "0 < length'"
  then show "cat_operand len l 0 start length' = Some (e, s) \<longleftrightarrow>
       (\<exists>i<length l. e = l ! i \<and>
          s = start - (\<Sum>x\<leftarrow>take i l. int (len x)) \<and>
          (\<Sum>x\<leftarrow>take i l. int (len x)) \<le> start \<and>
          start + length' \<le> (\<Sum>x\<leftarrow>take i l. int (len x)) + int (len (l ! i)))"
    unfolding cat_operand_iff by auto
next
  show "lower_slice_cat len (Cat l) start length' =
     (case cat_operand len l 0 start length' of
        Some es \<Rightarrow> lower_slice_cat len (fst es) (snd es) length'
      | None \<Rightarrow> (Cat l, start))"
    by (simp add: lower_slice_cat.simps [of len "Cat l"])
next
  assume "0 < len v \<and> 0 < length'"
  then show "lower_slice_replicate len (Replicate v n) start length' =
        (if \<exists>k. k * int (len v) \<le> start \<and> start + length' \<le> (k + 1) * int (len v)
         then lower_slice_replicate len v (start mod int (len v)) length'
         else Inr (Replicate v n, start))"
    using same_period_iff [of "int (len v)" length' start] by simp
next
  assume l: "lower_slices_loop len node start length' = Inr (node', start')"
  from lower_slices_loop_fixpoint [OF l]
  show c: "lower_slice_cat len node' start' length' = (node', start')"
    and r: "lower_slice_replicate len node' start' length' = Inr (node', start')"
    by simp_all
  from lower_slices_loop_narrows [OF l]
  show p: "(narrows len length')\<^sup>*\<^sup>* (node, start) (node', start')" .
  from narrow_step_None [OF c r] show nf: "narrow_step len length' (node', start') = None" .
  show "\<forall>y. (narrows len length')\<^sup>*\<^sup>* (node, start) y \<and> narrow_step len length' y = None \<longrightarrow>
           y = (node', start')"
    using narrows_normal_form_unique [OF _ _ p nf] by blast
next
  show "(\<exists>ns. lower_slices_loop len node start length' = Inr ns) \<or>
    lower_slices_loop len node start length' = Inl ZeroDivisionError \<and>
    (\<exists>w k s. (narrows len length')\<^sup>*\<^sup>* (node, start) (Replicate w k, s) \<and> len w = 0)"
  proof (cases "lower_slices_loop len node start length'")
    case (Inl e)
    from lower_slices_loop_Inl [OF Inl] Inl show ?thesis
      by blast
  next
    case (Inr ns)
    then show ?thesis by blast
  qed
next
  assume "0 < length'"
  then show "narrows len length' (Cat l, start) (e, s) \<longleftrightarrow>
       (\<exists>i<length l. e = l ! i \<and>
          s = start - (\<Sum>x\<leftarrow>take i l. int (len x)) \<and>
          (\<Sum>x\<leftarrow>take i l. int (len x)) \<le> start \<and>
          start + length' \<le> (\<Sum>x\<leftarrow>take i l. int (len x)) + int (len (l ! i)))"
    unfolding narrows_def narrow_step.simps cat_operand_iff by auto
next
  assume "0 < len v \<and> 0 < length'"
  then show "narrows len length' (Replicate v n, start) (e, s) \<longleftrightarrow>
       e = v \<and> s = start mod int (len v) \<and>
       (\<exists>k. k * int (len v) \<le> start \<and> start + length' \<le> (k + 1) * int (len v))"
    using same_period_iff [of "int (len v)" length' start] by (auto simp: narrows_def)
qed

text \<open>
  The theorem at the replication of the concatenation of \<open>a\<close> (4 bits) and \<open>b\<close> (8 bits):
  bits 17 to 19 lie in one period and there in \<open>b\<close>, at its bit 1; bits 3 to 5 lie in one
  period and there across \<open>a\<close> and \<open>b\<close>.
\<close>

theorem slice_narrowing_witness:
  "lower_slices_loop example_len
     (Replicate (Cat [Signal (bus 20 ''a'' 4), Signal (bus 21 ''b'' 8)]) 2) 17 3 =
     Inr (Signal (bus 21 ''b'' 8), 1) \<and>
   (narrows example_len 3)\<^sup>*\<^sup>*
     (Replicate (Cat [Signal (bus 20 ''a'' 4), Signal (bus 21 ''b'' 8)]) 2, 17)
     (Signal (bus 21 ''b'' 8), 1) \<and>
   narrow_step example_len 3 (Signal (bus 21 ''b'' 8), 1) = None \<and>
   lower_slices_loop example_len
     (Replicate (Cat [Signal (bus 20 ''a'' 4), Signal (bus 21 ''b'' 8)]) 2) 3 3 =
     Inr (Cat [Signal (bus 20 ''a'' 4), Signal (bus 21 ''b'' 8)], 3) \<and>
   narrow_step example_len 3 (Cat [Signal (bus 20 ''a'' 4), Signal (bus 21 ''b'' 8)], 3) = None \<and>
   cat_operand example_len [Signal (bus 20 ''a'' 4), Signal (bus 21 ''b'' 8)] 0 5 3 =
     Some (Signal (bus 21 ''b'' 8), 1) \<and>
   lower_slice_replicate example_len (Replicate (Signal (bus 21 ''b'' 8)) 3) 9 3 =
     Inr (Signal (bus 21 ''b'' 8), 1) \<and>
   lower_slice_cat example_len (Cat [Signal (bus 20 ''a'' 4), Signal (bus 21 ''b'' 8)]) 3 3 =
     (Cat [Signal (bus 20 ''a'' 4), Signal (bus 21 ''b'' 8)], 3)"
proof -
  let ?a = "Signal (bus 20 ''a'' 4)" and ?b = "Signal (bus 21 ''b'' 8)"
  note t1 = slice_narrowing
    [where len = example_len and l = "[?a, ?b]" and start = 5 and length' = 3 and e = ?b
       and s = 1, THEN conjunct1, rule_format]
  note t4 = slice_narrowing
    [where len = example_len and node = "Replicate (Cat [?a, ?b]) 2" and start = 3
       and length' = 3 and node' = "Cat [?a, ?b]" and start' = 3,
     THEN conjunct2, THEN conjunct2, THEN conjunct2, THEN conjunct1, rule_format]
  note t5 = slice_narrowing
    [where len = example_len and node = "Replicate (Cat [?a, ?b]) 2" and start = 17
       and length' = 3 and node' = ?b and start' = 1,
     THEN conjunct2, THEN conjunct2, THEN conjunct2, THEN conjunct1, rule_format]
  have "\<exists>i<length [?a, ?b]. ?b = [?a, ?b] ! i \<and>
      1 = 5 - (\<Sum>x\<leftarrow>take i [?a, ?b]. int (example_len x)) \<and>
      (\<Sum>x\<leftarrow>take i [?a, ?b]. int (example_len x)) \<le> 5 \<and>
      5 + 3 \<le> (\<Sum>x\<leftarrow>take i [?a, ?b]. int (example_len x)) + int (example_len ([?a, ?b] ! i))"
    by (intro exI [of _ 1]) (simp add: bus_def)
  with t1 have c: "cat_operand example_len [?a, ?b] 0 5 3 = Some (?b, 1)"
    by simp
  have l3: "lower_slices_loop example_len (Replicate (Cat [?a, ?b]) 2) 3 3 = Inr (Cat [?a, ?b], 3)"
    by code_simp
  have l17: "lower_slices_loop example_len (Replicate (Cat [?a, ?b]) 2) 17 3 = Inr (?b, 1)"
    by code_simp
  have r: "lower_slice_replicate example_len (Replicate ?b 3) 9 3 = Inr (?b, 1)"
    by code_simp
  from t4 [OF l3] t5 [OF l17] l3 l17 c r show ?thesis
    by simp
qed

end
